theory Spec2Isabelle
  imports Main "HOL-Library.AList"
begin

text \<open>
  A model of \<open>lib/shepherd.js\<close>, the \<open>ZShepherd\<close> class: the request methods attached
  to an endpoint (\<open>_attachZclMethods\<close>, \<open>_foundation\<close>, \<open>_updateFinalizer\<close>), the
  listener on attribute reports, \<open>mount\<close> with its queue, \<open>stop\<close>, \<open>reset\<close>,
  \<open>list\<close>, \<open>lqi\<close> and \<open>lqiScan\<close>. The Controller, the AF layer, the ZCL catalog and
  the DevBox are outside the class; what they answer is a parameter of each operation.
  A promise is modelled by how it settles, and an operation by the state it leaves once
  the promise chains it started have run.
\<close>

section \<open>JavaScript values, errors and promise outcomes\<close>

text \<open>
  The values that travel through the Shepherd (attribute ids, status codes, attribute
  data, cluster ids) are JavaScript scalars. Numbers are modelled as integers: every
  number the code inspects (status codes, attribute ids, endpoint ids) is integral.
\<close>

datatype jsval = JUndefined | JNull | JBool bool | JNum int | JStr string

datatype js_error =
    Error string
  | TypeError string
  | ReferenceError string

text \<open>
  A settled promise is a sum: \<open>Inl\<close> the rejection reason, \<open>Inr\<close> the fulfilment value.
  Only the promise style of each call is modelled (\<open>callback\<close> undefined, so that
  \<open>nodeify\<close> hands the promise back).
\<close>

type_synonym 'a promise = "js_error + 'a"

text \<open>Decimal rendering of a number, as string concatenation \<open>'...' + n\<close> produces it.\<close>

fun show_nat :: "nat \<Rightarrow> string" where
  "show_nat n =
     (if n < 10 then [char_of (48 + n)]
      else show_nat (n div 10) @ [char_of (48 + n mod 10)])"

declare show_nat.simps [simp del]

definition show_int :: "int \<Rightarrow> string" where
  "show_int i = (if i < 0 then CHR ''-'' # show_nat (nat (- i)) else show_nat (nat i))"

fun js_to_string :: "jsval \<Rightarrow> string" where
  "js_to_string JUndefined = ''undefined''"
| "js_to_string JNull = ''null''"
| "js_to_string (JBool b) = (if b then ''true'' else ''false'')"
| "js_to_string (JNum n) = show_int n"
| "js_to_string (JStr s) = s"

section \<open>The ZCL catalog and the AF layer (external collaborators)\<close>

text \<open>
  \<open>zclId\<close> is an external package; it is a parameter of every operation. A lookup
  returns \<open>{key, value}\<close> or nothing.
\<close>

record item =
  key :: string
  val :: jsval

record catalog =
  cat_cluster :: "jsval \<Rightarrow> item option"
  cat_attr :: "jsval \<Rightarrow> jsval \<Rightarrow> item option"
  cat_attrType :: "jsval \<Rightarrow> jsval \<Rightarrow> item option"
  cat_foundation :: "jsval \<Rightarrow> item option"
  cat_status :: "jsval \<Rightarrow> item option"

text \<open>A ZCL record \<open>{attrId, status, dataType, attrData}\<close>; an absent field reads \<open>undefined\<close>.\<close>

record zcl_rec =
  attrId :: jsval
  status :: jsval
  dataType :: jsval
  attrData :: jsval

text \<open>The configure-reporting record built by \<open>ep.report\<close>.\<close>

record cfg_rpt_rec =
  direction :: int
  rpt_attrId :: jsval
  rpt_dataType :: jsval
  minRepIntval :: jsval
  maxRepIntval :: jsval
  repChange :: jsval

datatype zcl_data = ReadRecs "zcl_rec list" | CfgRptRecs "cfg_rpt_rec list"

text \<open>One call \<open>af.zclFoundation(srcEp, dstEp, cId, cmd, zclData, cfg)\<close>.\<close>

record af_request =
  srcEp :: nat
  dstEp :: nat
  req_cId :: jsval
  cmd :: jsval
  zclData :: zcl_data
  cfg :: "(string \<times> jsval) list"

type_synonym attrs = "(string \<times> jsval) list"

text \<open>
  The environment of a request: what the AF layer answers to a foundation request
  (\<open>msg.payload\<close>, or a rejection) and to the follow-up attribute query
  \<open>af.zclClusterAttrsReq(ep, cId)\<close>.
\<close>

record af_layer =
  zclFoundation :: "af_request \<Rightarrow> (zcl_rec list) promise"
  zclClusterAttrsReq :: "nat \<Rightarrow> jsval \<Rightarrow> attrs promise"

section \<open>Endpoints, the cluster cache and the event stream\<close>

text \<open>
  An endpoint carries its identity and its cluster table: cluster key to the
  last-known attributes (\<open>ep.getClusters()\<close>). Objects are association lists in
  insertion order; assignment \<open>o[k] = v\<close> is \<open>AList.update\<close>.
\<close>

record endpoint =
  ep_id :: nat
  profId :: int
  clusters :: "(string \<times> attrs) list"

datatype ind =
    DevChange nat jsval attrs
  | AttReport nat jsval attrs

text \<open>The part of the Shepherd a request touches: the endpoint, the emitted \<open>ind\<close>
  events and the requests handed to the AF layer, both in order.\<close>

record router =
  ep :: endpoint
  emitted :: "ind list"
  issued :: "af_request list"

text \<open>
  Modelled from the spec: \<open>zutils.objectDiff\<close> (lib/components/zutils.js is not among
  the sources). The spec: an attrs snapshot is diffed against a new snapshot; the diff
  carries the new values of the attributes that changed, and a report changes the cache
  iff the reported value differs.
\<close>

definition objectDiff :: "attrs \<Rightarrow> attrs \<Rightarrow> attrs" where
  "objectDiff oldAttrs newAttrs =
     filter (\<lambda>(k, v). map_of oldAttrs k \<noteq> Some v) newAttrs"

text \<open>The key an attribute is cached under: the catalog's name, else the id itself.\<close>

definition attrKey :: "catalog \<Rightarrow> jsval \<Rightarrow> jsval \<Rightarrow> string" where
  "attrKey cat cId aId =
     (case cat_attr cat cId aId of Some i \<Rightarrow> key i | None \<Rightarrow> js_to_string aId)"

definition clusterKey :: "catalog \<Rightarrow> jsval \<Rightarrow> jsval" where
  "clusterKey cat cId =
     (case cat_cluster cat cId of Some i \<Rightarrow> JStr (key i) | None \<Rightarrow> cId)"

text \<open>The loop of \<open>_updateFinalizer\<close> that builds \<open>newAttrs\<close> from the records.\<close>

fun buildNewAttrs :: "catalog \<Rightarrow> jsval \<Rightarrow> bool \<Rightarrow> zcl_rec list \<Rightarrow> attrs \<Rightarrow> attrs" where
  "buildNewAttrs cat cId reported [] newAttrs = newAttrs"
| "buildNewAttrs cat cId reported (r # recs) newAttrs =
     buildNewAttrs cat cId reported recs
       (AList.update (attrKey cat cId (attrId r))
          (if reported then attrData r
           else if status r = JNum 0 then attrData r else JNull)
          newAttrs)"

text \<open>
  \<open>ep.getClusters().set(cIdString, 'attrs', attrId, val)\<close> for every entry of the diff
  (lines 734-736). The cluster table is the external package \<open>ziee\<close>; its \<open>set\<close>
  refuses an undefined value by throwing, which ends the \<open>forEach\<close>: the entries
  before it stay set and the rest of the handler is skipped. The result is the
  attributes afterwards and whether the loop ran to its end.
\<close>

fun setAttrs :: "attrs \<Rightarrow> attrs \<Rightarrow> attrs \<times> bool" where
  "setAttrs [] cache = (cache, True)"
| "setAttrs ((k, v) # diff) cache =
     (if v = JUndefined then (cache, False) else setAttrs diff (AList.update k v cache))"

text \<open>
  \<open>_updateFinalizer(ep, cId, attrs, reported)\<close> (lines 704-743). \<open>attrsArg = None\<close> is
  the call without \<open>attrs\<close>, which queries the AF layer instead. Every failure inside
  (a rejected query, a cluster missing from the table, where \<open>clusters[cIdString].attrs\<close>
  throws, a refused \<open>set\<close>) is swallowed by the trailing \<open>fail\<close> handler. Emitting \<open>ind:changed\<close> makes
  the constructor's listener emit \<open>ind\<close> with type \<open>devChange\<close> (lines 118-120).
\<close>

definition updateFinalizer ::
  "catalog \<Rightarrow> af_layer \<Rightarrow> router \<Rightarrow> jsval \<Rightarrow> zcl_rec list option \<Rightarrow> bool \<Rightarrow> router" where
  "updateFinalizer cat af s cId attrsArg reported =
     (let cIdString = clusterKey cat cId;
          newAttrsP = (case attrsArg of
                         Some recs \<Rightarrow> Inr (buildNewAttrs cat cId reported recs [])
                       | None \<Rightarrow> zclClusterAttrsReq af (ep_id (ep s)) cId)
      in case newAttrsP of
           Inl err \<Rightarrow> s
         | Inr newAttrs \<Rightarrow>
             (case map_of (clusters (ep s)) (js_to_string cIdString) of
                None \<Rightarrow> s
              | Some oldAttrs \<Rightarrow>
                  (let diff = objectDiff oldAttrs newAttrs
                   in if diff \<noteq> [] then
                        (let (newCache, finished) = setAttrs diff oldAttrs;
                             s1 = s\<lparr>ep := (ep s)\<lparr>clusters :=
                                    AList.update (js_to_string cIdString) newCache
                                      (clusters (ep s))\<rparr>\<rparr>
                         in if finished then
                              s1\<lparr>emitted := emitted s @ [DevChange (ep_id (ep s)) cIdString diff]\<rparr>
                            else s1)
                      else s)))"

text \<open>
  \<open>_foundation(srcEp, dstEp, cId, cmd, zclData, cfg)\<close> (lines 663-684) with
  \<open>srcEp = dstEp = ep\<close> and no \<open>cfg\<close>, as the per-endpoint methods call it. Returns
  the promise's outcome and the state once the finalizer it started has run.
\<close>

definition foundation ::
  "catalog \<Rightarrow> af_layer \<Rightarrow> router \<Rightarrow> jsval \<Rightarrow> jsval \<Rightarrow> zcl_data \<Rightarrow> (zcl_rec list) promise \<times> router" where
  "foundation cat af s cId c zd =
     (let req = \<lparr>srcEp = ep_id (ep s), dstEp = ep_id (ep s), req_cId = cId, cmd = c,
                 zclData = zd, cfg = []\<rparr>;
          s1 = s\<lparr>issued := issued s @ [req]\<rparr>
      in case zclFoundation af req of
           Inl err \<Rightarrow> (Inl err, s1)
         | Inr payload \<Rightarrow>
             (let cmdString = (case cat_foundation cat c of Some i \<Rightarrow> JStr (key i) | None \<Rightarrow> c)
              in if cmdString = JStr ''read'' then
                   (Inr payload, updateFinalizer cat af s1 cId (Some payload) False)
                 else if cmdString = JStr ''write'' \<or> cmdString = JStr ''writeUndiv''
                         \<or> cmdString = JStr ''writeNoRsp'' then
                   (Inr payload, updateFinalizer cat af s1 cId None False)
                 else (Inr payload, s1)))"

text \<open>\<open>ep.read(cId, attrId)\<close> (lines 588-601). On an empty response \<open>rec\<close> is
  \<open>undefined\<close> and reading \<open>rec.status\<close> throws inside the handler.\<close>

definition read :: "catalog \<Rightarrow> af_layer \<Rightarrow> router \<Rightarrow> jsval \<Rightarrow> jsval \<Rightarrow> jsval promise \<times> router" where
  "read cat af s cId aId =
     (let attr = (case cat_attr cat cId aId of Some i \<Rightarrow> val i | None \<Rightarrow> aId);
          (rsp, s') = foundation cat af s cId (JStr ''read'')
                        (ReadRecs [\<lparr>attrId = attr, status = JUndefined,
                                    dataType = JUndefined, attrData = JUndefined\<rparr>])
      in case rsp of
           Inl err \<Rightarrow> (Inl err, s')
         | Inr readStatusRecsRsp \<Rightarrow>
             (case readStatusRecsRsp of
                [] \<Rightarrow> (Inl (TypeError ''Cannot read property status of undefined''), s')
              | r # _ \<Rightarrow>
                  if status r = JNum 0 then (Inr (attrData r), s')
                  else (Inl (Error (''request unsuccess: '' @ js_to_string (status r))), s')))"

text \<open>
  The listener on \<open>ind:reported\<close> (lines 140-160): it starts the cache-update pass with
  \<open>reported = true\<close>, then emits \<open>attReport\<close>; the pass itself runs later, so its
  \<open>devChange\<close> follows the \<open>attReport\<close>.
\<close>

fun reportData :: "catalog \<Rightarrow> jsval \<Rightarrow> zcl_rec list \<Rightarrow> attrs \<Rightarrow> attrs" where
  "reportData cat cIdString [] data = data"
| "reportData cat cIdString (r # recs) data =
     reportData cat cIdString recs
       (AList.update (attrKey cat cIdString (attrId r)) (attrData r) data)"

definition on_reported :: "catalog \<Rightarrow> af_layer \<Rightarrow> router \<Rightarrow> jsval \<Rightarrow> zcl_rec list \<Rightarrow> router" where
  "on_reported cat af s cId recs =
     (let cIdString = clusterKey cat cId;
          notif = AttReport (ep_id (ep s)) cIdString (reportData cat cIdString recs [])
      in updateFinalizer cat af (s\<lparr>emitted := emitted s @ [notif]\<rparr>) cId (Some recs) True)"

text \<open>
  \<open>ep.report\<close> (lines 616-659). The Controller is external: \<open>getCoord()\<close> with the coordinator's
  \<open>getDelegator(profId)\<close>, and the outcome of \<open>bind(ep, cId, dlgEp)\<close>.
\<close>

record controller =
  getCoord :: "(int \<Rightarrow> nat option) option"
  bind :: "nat \<Rightarrow> jsval \<Rightarrow> nat \<Rightarrow> unit promise"

text \<open>The arguments: \<open>report(cId)\<close> binds only; the longer form configures the report.\<close>

datatype report_args =
    ReportBind jsval
  | ReportCfg jsval jsval jsval jsval jsval

fun report_cId :: "report_args \<Rightarrow> jsval" where
  "report_cId (ReportBind cId) = cId"
| "report_cId (ReportCfg cId aId minInt maxInt rc) = cId"

text \<open>
  The record built before the promise chain starts. \<open>zclId.attrType(cId, attrId).value\<close>
  is read unguarded, so an attribute without a type throws there.
\<close>

fun cfgRptRec :: "catalog \<Rightarrow> report_args \<Rightarrow> js_error + cfg_rpt_rec option" where
  "cfgRptRec cat (ReportBind cId) = Inr None"
| "cfgRptRec cat (ReportCfg cId aId minInt maxInt rc) =
     (case cat_attrType cat cId aId of
        None \<Rightarrow> Inl (TypeError ''Cannot read property value of undefined'')
      | Some t \<Rightarrow>
          Inr (Some \<lparr>direction = 0,
                     rpt_attrId = (case cat_attr cat cId aId of Some i \<Rightarrow> val i | None \<Rightarrow> aId),
                     rpt_dataType = val t,
                     minRepIntval = minInt, maxRepIntval = maxInt, repChange = rc\<rparr>))"

text \<open>
  What a call of \<open>report\<close> leaves behind: what the call itself did (\<open>Inl\<close>: it threw;
  \<open>Inr\<close>: the outcome of the promise it returned), the state of the internal
  \<open>deferred\<close> (\<open>None\<close>: still pending; \<open>Some k\<close>: rejected with the status name
  \<open>k\<close>), and the router.
\<close>

record report_result =
  returned :: "js_error + jsval promise"
  deferred :: "string option"
  after :: router

definition report :: "catalog \<Rightarrow> af_layer \<Rightarrow> controller \<Rightarrow> router \<Rightarrow> report_args \<Rightarrow> report_result" where
  "report cat af ctl s args =
     (case getCoord ctl of
        None \<Rightarrow> \<lparr>returned = Inl (TypeError ''Cannot read property getDelegator of null''),
                  deferred = None, after = s\<rparr>
      | Some getDelegator \<Rightarrow>
          (case cfgRptRec cat args of
             Inl err \<Rightarrow> \<lparr>returned = Inl err, deferred = None, after = s\<rparr>
           | Inr cfgRpt \<Rightarrow>
               (case getDelegator (profId (ep s)) of
                  None \<Rightarrow>
                    \<lparr>returned = Inr (Inl (Error (''Profile: '' @ show_int (profId (ep s))
                                                  @ '' is not supported.''))),
                     deferred = None, after = s\<rparr>
                | Some dlgEp \<Rightarrow>
                    (case bind ctl (ep_id (ep s)) (report_cId args) dlgEp of
                       Inl err \<Rightarrow> \<lparr>returned = Inr (Inl err), deferred = None, after = s\<rparr>
                     | Inr u \<Rightarrow>
                         (case cfgRpt of
                            None \<Rightarrow> \<lparr>returned = Inr (Inr JUndefined), deferred = None, after = s\<rparr>
                          | Some rec \<Rightarrow>
                              (let (rsp, s') = foundation cat af s (report_cId args)
                                                 (JStr ''configReport'') (CfgRptRecs [rec])
                               in case rsp of
                                    Inl err \<Rightarrow>
                                      \<lparr>returned = Inr (Inl err), deferred = None, after = s'\<rparr>
                                  | Inr [] \<Rightarrow>
                                      \<lparr>returned = Inr (Inl (TypeError
                                           ''Cannot read property status of undefined'')),
                                       deferred = None, after = s'\<rparr>
                                  | Inr (r # rs) \<Rightarrow>
                                      if status r \<noteq> JNum 0 then
                                        (case cat_status cat (status r) of
                                           None \<Rightarrow>
                                             \<lparr>returned = Inr (Inl (TypeError
                                                  ''Cannot read property key of undefined'')),
                                              deferred = None, after = s'\<rparr>
                                         | Some i \<Rightarrow>
                                             \<lparr>returned = Inr (Inr JUndefined),
                                              deferred = Some (key i), after = s'\<rparr>)
                                      else \<lparr>returned = Inr (Inr JUndefined), deferred = None,
                                             after = s'\<rparr>))))))"

text \<open>The request \<open>ep.read\<close> hands to the AF layer: \<open>read\<close> with the single record \<open>{attrId}\<close>, the id resolved through the catalog when it knows the attribute.\<close>

definition readRequest :: "catalog \<Rightarrow> router \<Rightarrow> jsval \<Rightarrow> jsval \<Rightarrow> af_request" where
  "readRequest cat s cId aId =
     \<lparr>srcEp = ep_id (ep s), dstEp = ep_id (ep s), req_cId = cId, cmd = JStr ''read'',
      zclData = ReadRecs [\<lparr>attrId = (case cat_attr cat cId aId of Some i \<Rightarrow> val i | None \<Rightarrow> aId),
                           status = JUndefined, dataType = JUndefined, attrData = JUndefined\<rparr>],
      cfg = []\<rparr>"

text \<open>The catalog names the foundation command \<open>read\<close> as itself (or does not know it).\<close>

definition names_read :: "catalog \<Rightarrow> bool" where
  "names_read cat = (case cat_foundation cat (JStr ''read'') of Some i \<Rightarrow> key i = ''read'' | None \<Rightarrow> True)"

text \<open>What a report pass announces for an attribute key: the last record for that key wins.\<close>

definition reportedValue :: "catalog \<Rightarrow> jsval \<Rightarrow> zcl_rec list \<Rightarrow> string \<Rightarrow> jsval option" where
  "reportedValue cat cId recs = map_of (rev (map (\<lambda>r. (attrKey cat cId (attrId r), attrData r)) recs))"

text \<open>The cached value of attribute \<open>k\<close> in cluster \<open>ck\<close> of the endpoint.\<close>

definition cached :: "router \<Rightarrow> string \<Rightarrow> string \<Rightarrow> jsval option" where
  "cached s ck k = (case map_of (clusters (ep s)) ck of None \<Rightarrow> None | Some a \<Rightarrow> map_of a k)"

text \<open>The request \<open>ep.report\<close> hands to the AF layer.\<close>

definition cfgReportRequest :: "catalog \<Rightarrow> router \<Rightarrow> report_args \<Rightarrow> cfg_rpt_rec \<Rightarrow> af_request" where
  "cfgReportRequest cat s args rec =
     \<lparr>srcEp = ep_id (ep s), dstEp = ep_id (ep s), req_cId = report_cId args,
      cmd = JStr ''configReport'', zclData = CfgRptRecs [rec], cfg = []\<rparr>"

text \<open>The diff the cache-update pass of a read computes against the cached attributes.\<close>

definition failedDiff :: "catalog \<Rightarrow> jsval \<Rightarrow> zcl_rec list \<Rightarrow> attrs \<Rightarrow> attrs" where
  "failedDiff cat cId recs oldAttrs = objectDiff oldAttrs (buildNewAttrs cat cId False recs [])"

subsection \<open>A concrete catalog, radio and endpoint\<close>

text \<open>
  Cluster \<open>genBasic\<close> (0) with attribute \<open>hwVersion\<close> (0) of type \<open>uint8\<close> (32); the
  foundation commands \<open>read\<close> and \<open>configReport\<close>; status 134 named
  \<open>unsupAttribute\<close>.
\<close>

definition zcat :: catalog where
  "zcat =
     \<lparr>cat_cluster = (\<lambda>c. if c = JStr ''genBasic'' \<or> c = JNum 0
                          then Some \<lparr>key = ''genBasic'', val = JNum 0\<rparr> else None),
      cat_attr = (\<lambda>c a. if (c = JStr ''genBasic'' \<or> c = JNum 0)
                              \<and> (a = JStr ''hwVersion'' \<or> a = JNum 0)
                         then Some \<lparr>key = ''hwVersion'', val = JNum 0\<rparr> else None),
      cat_attrType = (\<lambda>c a. if (c = JStr ''genBasic'' \<or> c = JNum 0)
                                  \<and> (a = JStr ''hwVersion'' \<or> a = JNum 0)
                             then Some \<lparr>key = ''uint8'', val = JNum 32\<rparr> else None),
      cat_foundation = (\<lambda>c. if c = JStr ''read'' then Some \<lparr>key = ''read'', val = JNum 0\<rparr>
                             else if c = JStr ''configReport''
                             then Some \<lparr>key = ''configReport'', val = JNum 6\<rparr> else None),
      cat_status = (\<lambda>c. if c = JNum 134 then Some \<lparr>key = ''unsupAttribute'', val = JNum 134\<rparr>
                         else None)\<rparr>"

text \<open>A radio answering every request with \<open>[{attrId:0, status:0, dataType:0x21, attrData:2400}]\<close>.\<close>

definition af_ok :: af_layer where
  "af_ok =
     \<lparr>zclFoundation = (\<lambda>req. Inr [\<lparr>attrId = JNum 0, status = JNum 0, dataType = JNum 33,
                                    attrData = JNum 2400\<rparr>]),
      zclClusterAttrsReq = (\<lambda>e c. Inr [])\<rparr>"

text \<open>A radio answering every request with \<open>[{attrId:0, status:0x86}]\<close>.\<close>

definition af_fail :: af_layer where
  "af_fail =
     \<lparr>zclFoundation = (\<lambda>req. Inr [\<lparr>attrId = JNum 0, status = JNum 134, dataType = JUndefined,
                                    attrData = JUndefined\<rparr>]),
      zclClusterAttrsReq = (\<lambda>e c. Inr [])\<rparr>"

text \<open>A radio answering every request with \<open>[{attrId:0, status:0x4d}]\<close>, a status the
  catalog has no name for.\<close>

definition af_unnamed :: af_layer where
  "af_unnamed =
     \<lparr>zclFoundation = (\<lambda>req. Inr [\<lparr>attrId = JNum 0, status = JNum 77, dataType = JUndefined,
                                    attrData = JUndefined\<rparr>]),
      zclClusterAttrsReq = (\<lambda>e c. Inr [])\<rparr>"

text \<open>An endpoint whose \<open>genBasic\<close> cache holds the given attributes; nothing emitted yet.\<close>

definition router_with :: "attrs \<Rightarrow> router" where
  "router_with a =
     \<lparr>ep = \<lparr>ep_id = 1, profId = 260, clusters = [(''genBasic'', a)]\<rparr>,
      emitted = [], issued = []\<rparr>"

text \<open>A Controller whose coordinator has a delegator (endpoint 1) for profile 260.\<close>

definition ctl_ok :: controller where
  "ctl_ok =
     \<lparr>getCoord = Some (\<lambda>p. if p = 260 then Some 1 else None),
      bind = (\<lambda>e c d. Inr ())\<rparr>"

section \<open>The Mount Serializer\<close>

text \<open>
  A mounted application (\<open>Zive\<close>) is an object with an identity; \<open>mount\<close> compares
  applications with \<open>===\<close>, so the identity \<open>zid\<close> is what counts. Its simple
  descriptor's \<open>epId\<close> is \<open>undefined\<close> until a mount assigns it.
\<close>

record simple_desc =
  sd_profId :: int
  sd_epId :: jsval

record coordpoint =
  cp_epId :: jsval
  cp_profId :: int
  cp_clusters :: "(string \<times> attrs) list"

record zive =
  zid :: nat
  simpleDesc :: simple_desc
  z_clusters :: "(string \<times> attrs) list"
  z_endpoint :: "coordpoint option"

text \<open>The coordinator device: its endpoint id list and its endpoint table, keyed by id.\<close>

record coord =
  epList :: "int list"
  endpoints :: "(string \<times> coordpoint) list"

text \<open>
  Modelled from the spec: the \<open>Coordpoint\<close> class (lib/model/coordpoint.js is not among
  the sources). The spec: a Coordpoint is created with the application's simple
  descriptor; \<open>getEpId()\<close> and \<open>getProfId()\<close> read the descriptor's ids.
\<close>

definition Coordpoint :: "simple_desc \<Rightarrow> coordpoint" where
  "Coordpoint sd = \<lparr>cp_epId = sd_epId sd, cp_profId = sd_profId sd, cp_clusters = []\<rparr>"

definition getEpId :: "coordpoint \<Rightarrow> jsval" where
  "getEpId loEp = cp_epId loEp"

text \<open>\<open>Math.max.apply(null, xs)\<close>; \<open>None\<close> is \<open>-Infinity\<close>, the maximum of no numbers.\<close>

fun Math_max :: "int list \<Rightarrow> int option" where
  "Math_max [] = None"
| "Math_max (x # xs) = Some (fold max xs x)"

text \<open>\<open>mountId > 10 ? mountId + 1 : 11\<close>.\<close>

definition mountEpId :: "int list \<Rightarrow> int" where
  "mountEpId epl =
     (case Math_max epl of
        None \<Rightarrow> 11
      | Some mountId \<Rightarrow> if mountId > 10 then mountId + 1 else 11)"

text \<open>
  What the Controller and the DevBox answer during one mount: \<open>registerEp(loEp)\<close>,
  \<open>querie.coordInfo()\<close> (of which the endpoint list is kept) and \<open>sync(id)\<close>.
\<close>

record mount_env =
  registerEp :: "coordpoint \<Rightarrow> unit promise"
  coordInfo :: "(int list) promise"
  sync :: "unit promise"

text \<open>
  The Shepherd's own fields: \<open>_enabled\<close>, \<open>_zApp\<close> (identities of the applications),
  \<open>_mounting\<close>, \<open>_mountQueue\<close> (each closure holds its application and its
  deferred), the coordinator the Controller hands out (\<open>None\<close> before it is
  initialised) and the ids of the DevBox's in-memory elements.
\<close>

record shepherd =
  enabled :: bool
  zApp :: "nat list"
  mounting :: bool
  mountQueue :: "(zive \<times> nat) list"
  coordinator :: "coord option"
  registry :: "nat list"

text \<open>
  The promise chain of \<open>mount\<close> (lines 293-332), from \<open>Q.fcall\<close> to the settling of
  the deferred: the duplicate check and the push to \<open>_zApp\<close>; the endpoint id, the
  Coordpoint and its entry in \<open>coord.endpoints\<close>; \<open>registerEp\<close>; \<open>coordInfo\<close>,
  \<open>coord.update\<close> and \<open>sync\<close>; \<open>deferred.resolve(loEp.getEpId())\<close>. It
  returns how the deferred settles, the Shepherd and the application afterwards. What a
  step has mutated stays mutated when a later step fails. The coordinator is one shared
  object, so the \<open>coord\<close> captured at the call is the state's coordinator.
\<close>

definition mount_chain ::
  "mount_env \<Rightarrow> shepherd \<Rightarrow> zive \<Rightarrow> jsval promise \<times> shepherd \<times> zive" where
  "mount_chain env s z =
     (if zid z \<in> set (zApp s) then (Inl (Error ''zApp already exists.''), s, z)
      else
        (let s1 = s\<lparr>zApp := zApp s @ [zid z]\<rparr>
         in case coordinator s1 of
              None \<Rightarrow> (Inl (Error ''Coordinator has not been initialized yet.''), s1, z)
            | Some c \<Rightarrow>
                (let z1 = z\<lparr>simpleDesc := (simpleDesc z)\<lparr>sd_epId := JNum (mountEpId (epList c))\<rparr>\<rparr>;
                     loEp = (Coordpoint (simpleDesc z1))\<lparr>cp_clusters := z_clusters z1\<rparr>;
                     c1 = c\<lparr>endpoints :=
                            AList.update (js_to_string (getEpId loEp)) loEp (endpoints c)\<rparr>;
                     z2 = z1\<lparr>z_endpoint := Some loEp\<rparr>;
                     s2 = s1\<lparr>coordinator := Some c1\<rparr>
                 in case registerEp env loEp of
                      Inl err \<Rightarrow> (Inl err, s2, z2)
                    | Inr u \<Rightarrow>
                        (case coordInfo env of
                           Inl err \<Rightarrow> (Inl err, s2, z2)
                         | Inr info \<Rightarrow>
                             (let s3 = s2\<lparr>coordinator := Some (c1\<lparr>epList := info\<rparr>)\<rparr>
                              in case sync env of
                                   Inl err \<Rightarrow> (Inl err, s3, z2)
                                 | Inr u' \<Rightarrow> (Inr (getEpId loEp), s3, z2))))))"


subsection \<open>The serializer as a machine\<close>

text \<open>
  Around the Shepherd: the chains that have started and not finished, in order; the
  number of drain callbacks handed to \<open>process.nextTick\<close> and not yet run; whether
  such a callback threw; the deferreds in the order their chains started; how each
  deferred settled; the next fresh deferred.
\<close>

record sys =
  sh :: shepherd
  running :: "(zive \<times> nat) list"
  ticks :: nat
  crashed :: bool
  started :: "nat list"
  settled :: "(nat \<times> jsval promise) list"
  next_deferred :: nat
  nodebacks :: "nat list"

datatype mount_event = Call zive | Complete mount_env | Tick

text \<open>
  The synchronous part of \<open>mount(zApp, callback)\<close> (lines 274-291) with deferred \<open>d\<close>:
  queue the closure when a mount is in flight, otherwise set \<open>_mounting\<close> and start the
  chain. \<open>passed\<close> says that \<open>d\<close> came in as the \<open>callback\<close> argument, as in the
  call made by a queued closure (line 286). Then, when the mount is queued again,
  line 288's \<open>deferred.promise.nodeify(callback)\<close> registers the deferred object itself
  as the nodeback of its promise (recorded in \<open>nodebacks\<close>); for a call by the
  application \<open>callback\<close> is undefined and \<open>nodeify\<close> registers nothing.
\<close>

definition mount_enter :: "zive \<Rightarrow> nat \<Rightarrow> bool \<Rightarrow> sys \<Rightarrow> sys" where
  "mount_enter z d passed y =
     (if mounting (sh y) then
        y\<lparr>sh := (sh y)\<lparr>mountQueue := mountQueue (sh y) @ [(z, d)]\<rparr>,
          nodebacks := (if passed then nodebacks y @ [d] else nodebacks y)\<rparr>
      else y\<lparr>sh := (sh y)\<lparr>mounting := True\<rparr>,
             running := running y @ [(z, d)],
             started := started y @ [d]\<rparr>)"

text \<open>
  One event. \<open>Call z\<close>: the application calls \<open>mount(z)\<close>, with a fresh deferred.
  \<open>Complete env\<close>: the oldest running chain runs to its end against \<open>env\<close>, settles its
  deferred, and the \<open>done\<close> handler (lines 333-339) clears \<open>_mounting\<close> and, if the
  queue is not empty, schedules one drain callback with \<open>process.nextTick\<close>; if the
  deferred has itself registered as nodeback, calling it throws
  \<open>nodeback is not a function\<close> outside every handler. \<open>Tick\<close>: a
  scheduled drain callback runs \<open>_mountQueue.shift()()\<close>, which calls
  \<open>mount(zApp, deferred)\<close> again; on an empty queue that call throws. Between a
  \<open>Complete\<close> and its \<open>Tick\<close> other code can run: the \<open>done\<close> handler is one
  callback of a flush of the promise queue, and the callbacks behind it in that flush,
  like the \<open>nextTick\<close> callbacks scheduled before, run before the drain callback.
\<close>

fun step :: "mount_event \<Rightarrow> sys \<Rightarrow> sys" where
  "step (Call z) y =
     mount_enter z (next_deferred y) False (y\<lparr>next_deferred := Suc (next_deferred y)\<rparr>)"
| "step (Complete env) y =
     (case running y of
        [] \<Rightarrow> y
      | (z, d) # rest \<Rightarrow>
          (let (out, s', z') = mount_chain env (sh y) z;
               s'' = s'\<lparr>mounting := False\<rparr>
           in y\<lparr>sh := s'', running := rest, settled := settled y @ [(d, out)],
                ticks := (if mountQueue s'' \<noteq> [] then Suc (ticks y) else ticks y),
                crashed := crashed y \<or> d \<in> set (nodebacks y)\<rparr>))"
| "step Tick y =
     (if ticks y = 0 then y
      else
        (case mountQueue (sh y) of
           [] \<Rightarrow> y\<lparr>ticks := ticks y - 1, crashed := True\<rparr>
         | (z, d) # q \<Rightarrow>
             mount_enter z d True (y\<lparr>ticks := ticks y - 1, sh := (sh y)\<lparr>mountQueue := q\<rparr>\<rparr>)))"

text \<open>A run of events; nothing runs any more once a callback has thrown outside every
  handler.\<close>

fun run :: "mount_event list \<Rightarrow> sys \<Rightarrow> sys" where
  "run [] y = y"
| "run (e # es) y = (if crashed y then y else run es (step e y))"

text \<open>A run in which no \<open>mount\<close> call arrives while a drain callback is scheduled.\<close>

fun well_timed :: "mount_event list \<Rightarrow> sys \<Rightarrow> bool" where
  "well_timed [] y = True"
| "well_timed (e # es) y =
     ((case e of Call z \<Rightarrow> ticks y = 0 | Complete env \<Rightarrow> True | Tick \<Rightarrow> True)
      \<and> well_timed es (step e y))"

text \<open>The machine around a freshly constructed Shepherd with the given coordinator.\<close>

definition init_sys :: "coord option \<Rightarrow> sys" where
  "init_sys c =
     \<lparr>sh = \<lparr>enabled = True, zApp = [], mounting = False, mountQueue = [],
             coordinator = c, registry = []\<rparr>,
      running = [], ticks = 0, crashed = False, started = [], settled = [],
      next_deferred = 0, nodebacks = []\<rparr>"

text \<open>What the serializer keeps true of every state.\<close>

definition serialized :: "sys \<Rightarrow> bool" where
  "serialized y = (length (running y) \<le> 1 \<and> (mounting (sh y) \<longleftrightarrow> running y \<noteq> []))"

text \<open>First in, first out: the deferreds started and then those queued are the
  deferreds in the order of their calls.\<close>

definition fifo :: "sys \<Rightarrow> bool" where
  "fifo y = (started y @ map snd (mountQueue (sh y)) = [0..<next_deferred y])"

text \<open>What holds as long as no call arrives while a drain callback is scheduled: the
  serializer's invariant, first in first out, no thrown callback, no deferred registered
  as a nodeback, and a drain callback scheduled exactly when the queue waits for one.\<close>

definition timed :: "sys \<Rightarrow> bool" where
  "timed y =
     (serialized y \<and> fifo y \<and> \<not> crashed y \<and> nodebacks y = []
      \<and> ticks y = (if \<not> mounting (sh y) \<and> mountQueue (sh y) \<noteq> [] then 1 else 0))"

subsection \<open>Concrete applications and Controller answers\<close>

definition app :: "nat \<Rightarrow> zive" where
  "app n = \<lparr>zid = n, simpleDesc = \<lparr>sd_profId = 260, sd_epId = JUndefined\<rparr>,
            z_clusters = [], z_endpoint = None\<rparr>"

definition env_ok :: "int list \<Rightarrow> mount_env" where
  "env_ok epl = \<lparr>registerEp = (\<lambda>e. Inr ()), coordInfo = Inr epl, sync = Inr ()\<rparr>"


definition coord0 :: coord where
  "coord0 = \<lparr>epList = [1, 2, 3, 4, 5, 6, 8], endpoints = []\<rparr>"

definition shepherd0 :: "coord option \<Rightarrow> shepherd" where
  "shepherd0 c = \<lparr>enabled = True, zApp = [], mounting = False, mountQueue = [],
                  coordinator = c, registry = []\<rparr>"

section \<open>Reset\<close>









section \<open>The device registry and \<open>list\<close>\<close>

record device =
  dev_id :: nat
  ieeeAddr :: string
  nwkAddr :: int
  dev_type :: string
  dev_status :: string
  incomplete :: bool

text \<open>An argument that is a scalar or an array of scalars.\<close>

datatype jsarg = Val jsval | Arr "jsval list"

text \<open>\<open>_findDevByAddr(addr)\<close>: the first device of the DevBox with that address.\<close>

definition findDevByAddr :: "device list \<Rightarrow> jsval \<Rightarrow> js_error + device option" where
  "findDevByAddr devs addr =
     (case addr of
        JStr a \<Rightarrow> Inr (find (\<lambda>dev. ieeeAddr dev = a) devs)
      | JNum n \<Rightarrow> Inr (find (\<lambda>dev. nwkAddr dev = n) devs)
      | JUndefined \<Rightarrow> Inl (TypeError ''addr should be a number or a string.'')
      | JNull \<Rightarrow> Inl (TypeError ''addr should be a number or a string.'')
      | JBool b \<Rightarrow> Inl (TypeError ''addr should be a number or a string.''))"

text \<open>\<open>_.omit(obj, props)\<close>.\<close>

definition omit :: "(string \<times> 'v) list \<Rightarrow> string list \<Rightarrow> (string \<times> 'v) list" where
  "omit obj props = filter (\<lambda>(k, v). k \<notin> set props) obj"

text \<open>
  The \<open>_.map\<close> of \<open>list\<close> over the addresses; an element that is not a string makes
  \<open>proving.string\<close> throw. \<open>dump\<close> is the device's \<open>dump()\<close>; an unknown address gives
  \<open>None\<close>, the undefined slot.
\<close>

fun foundDevs ::
  "device list \<Rightarrow> (device \<Rightarrow> (string \<times> 'v) list) \<Rightarrow> jsval list
     \<Rightarrow> js_error + (string \<times> 'v) list option list" where
  "foundDevs devs dump [] = Inr []"
| "foundDevs devs dump (a # as) =
     (case a of
        JStr s \<Rightarrow>
          (case findDevByAddr devs a of
             Inl err \<Rightarrow> Inl err
           | Inr found \<Rightarrow>
               (case foundDevs devs dump as of
                  Inl err \<Rightarrow> Inl err
                | Inr rest \<Rightarrow>
                    Inr (map_option (\<lambda>dev. omit (dump dev) [''id'', ''endpoints'']) found # rest)))
      | JUndefined \<Rightarrow> Inl (TypeError ''ieeeAddr should be a string.'')
      | JNull \<Rightarrow> Inl (TypeError ''ieeeAddr should be a string.'')
      | JBool b \<Rightarrow> Inl (TypeError ''ieeeAddr should be a string.'')
      | JNum n \<Rightarrow> Inl (TypeError ''ieeeAddr should be a string.''))"

text \<open>\<open>list(ieeeAddrs, showIncomplete)\<close> (lines 345-371) over the devices the DevBox
  exports.\<close>

definition list_devs ::
  "device list \<Rightarrow> (device \<Rightarrow> (string \<times> 'v) list) \<Rightarrow> jsarg \<Rightarrow> bool
     \<Rightarrow> js_error + (string \<times> 'v) list option list" where
  "list_devs devs dump ieeeAddrs showIncomplete =
     (case ieeeAddrs of
        Val (JStr s) \<Rightarrow> foundDevs devs dump [JStr s]
      | Arr as \<Rightarrow> foundDevs devs dump as
      | Val JUndefined \<Rightarrow>
          foundDevs devs dump
            (map (\<lambda>dev. JStr (ieeeAddr dev))
               (filter (\<lambda>a. showIncomplete \<or> \<not> incomplete a) devs))
      | Val JNull \<Rightarrow>
          Inl (TypeError ''ieeeAddrs should be a string or an array of strings if given.'')
      | Val (JBool b) \<Rightarrow>
          Inl (TypeError ''ieeeAddrs should be a string or an array of strings if given.'')
      | Val (JNum n) \<Rightarrow>
          Inl (TypeError ''ieeeAddrs should be a string or an array of strings if given.''))"

text \<open>The slot \<open>list\<close> returns for one address.\<close>

definition slot :: "device list \<Rightarrow> (device \<Rightarrow> (string \<times> 'v) list) \<Rightarrow> string
     \<Rightarrow> (string \<times> 'v) list option" where
  "slot devs dump a =
     map_option (\<lambda>dev. omit (dump dev) [''id'', ''endpoints''])
       (find (\<lambda>dev. ieeeAddr dev = a) devs)"

text \<open>Two devices and a dump with the fields \<open>id\<close>, \<open>ieeeAddr\<close>, \<open>nwkAddr\<close> and \<open>endpoints\<close>.\<close>

definition dev1 :: device where
  "dev1 = \<lparr>dev_id = 1, ieeeAddr = ''0x00124b0001'', nwkAddr = 100, dev_type = ''Router'',
           dev_status = ''online'', incomplete = False\<rparr>"

definition dev2 :: device where
  "dev2 = \<lparr>dev_id = 2, ieeeAddr = ''0x00124b0002'', nwkAddr = 200, dev_type = ''EndDevice'',
           dev_status = ''online'', incomplete = True\<rparr>"

definition dump0 :: "device \<Rightarrow> (string \<times> jsval) list" where
  "dump0 dev = [(''id'', JNum (int (dev_id dev))), (''ieeeAddr'', JStr (ieeeAddr dev)),
               (''nwkAddr'', JNum (nwkAddr dev)), (''endpoints'', JNull)]"

section \<open>The Topology Scanner\<close>

text \<open>The radio's answer to \<open>mgmtLqiReq\<close> and its neighbour entries.\<close>

record neighbor =
  extAddr :: string
  n_nwkAddr :: int
  n_lqi :: int

record lqi_rsp =
  rsp_status :: int
  neighborlqilist :: "neighbor list"

text \<open>
  A record of the scan. \<open>lqi\<close> makes it with \<open>ieeeAddr\<close>, \<open>nwkAddr\<close> and \<open>lqi\<close>; the
  scan stamps \<open>parent\<close> and \<open>status\<close> and, when the node's own request fails, \<open>error\<close>;
  the start record has \<open>status\<close>, \<open>ieeeAddr\<close> and \<open>type\<close> only. An absent field is
  \<open>None\<close>.
\<close>

record lqi_rec =
  l_ieeeAddr :: string
  l_nwkAddr :: "int option"
  l_lqi :: "int option"
  parent :: "string option"
  l_status :: "string option"
  l_type :: "string option"
  l_error :: "js_error option"

text \<open>
  \<open>lqi(ieeeAddr)\<close> (lines 400-417). \<open>request\<close> is the Controller's answer to \<open>mgmtLqiReq\<close> for a network
  address. A response with a non-zero status resolves with \<open>undefined\<close> (\<open>Inr None\<close>).
\<close>

definition lqi ::
  "device list \<Rightarrow> (int \<Rightarrow> lqi_rsp promise) \<Rightarrow> string \<Rightarrow> (lqi_rec list option) promise" where
  "lqi devs request a =
     (case find (\<lambda>dev. ieeeAddr dev = a) devs of
        None \<Rightarrow> Inl (Error ''device is not found.'')
      | Some dev \<Rightarrow>
          (case request (nwkAddr dev) of
             Inl err \<Rightarrow> Inl err
           | Inr rsp \<Rightarrow>
               if rsp_status rsp = 0 then
                 Inr (Some (map (\<lambda>n. \<lparr>l_ieeeAddr = extAddr n, l_nwkAddr = Some (n_nwkAddr n),
                                       l_lqi = Some (n_lqi n), parent = None, l_status = None,
                                       l_type = None, l_error = None\<rparr>)
                              (neighborlqilist rsp)))
               else Inr None))"

definition zeroAddr :: string where
  "zeroAddr = ''0x0000000000000000''"

text \<open>
  The \<open>for\<close> loop of \<open>processResponse(parent)\<close> over the entries of one response. It
  threads \<open>noDuplicate\<close>, the keys of \<open>set\<close> (the routers seen here for the first time)
  and what was handed to the \<open>emit\<close> sink. \<open>stamp\<close> writes \<open>parent\<close> and the registry's
  \<open>status\<close> into an entry; \<open>isRouter\<close> is \<open>dev && dev.type == "Router"\<close>.
\<close>

definition stamp :: "device list \<Rightarrow> string \<Rightarrow> lqi_rec \<Rightarrow> lqi_rec" where
  "stamp devs p e =
     e\<lparr>parent := Some p,
       l_status := Some (case find (\<lambda>d. ieeeAddr d = l_ieeeAddr e) devs of
                          Some dev \<Rightarrow> dev_status dev | None \<Rightarrow> ''offline'')\<rparr>"

definition isRouter :: "device list \<Rightarrow> string \<Rightarrow> bool" where
  "isRouter devs a =
     (case find (\<lambda>d. ieeeAddr d = a) devs of Some dev \<Rightarrow> dev_type dev = ''Router'' | None \<Rightarrow> False)"

fun processEntries ::
  "device list \<Rightarrow> bool \<Rightarrow> string \<Rightarrow> lqi_rec list
     \<Rightarrow> (string \<times> lqi_rec) list \<times> string list \<times> lqi_rec list
     \<Rightarrow> (string \<times> lqi_rec) list \<times> string list \<times> lqi_rec list" where
  "processEntries devs emit p [] acc = acc"
| "processEntries devs emit p (e # es) (noDup, st, snk) =
     (if l_ieeeAddr e = zeroAddr then processEntries devs emit p es (noDup, st, snk)
      else
        (let e' = stamp devs p e;
             snk' = (if emit then snk @ [e'] else snk)
         in if map_of noDup (l_ieeeAddr e) = None then
              processEntries devs emit p es
                (AList.update (l_ieeeAddr e) e' noDup,
                 (if isRouter devs (l_ieeeAddr e) then st @ [l_ieeeAddr e] else st),
                 snk')
            else processEntries devs emit p es (noDup, st, snk')))"

text \<open>
  The scan in progress: \<open>noDuplicate\<close>; the requests sent for newly seen routers whose
  \<open>processResponse\<close> has not run yet, each with its node and the outcome of its
  \<open>lqi\<close>; the entries handed to \<open>emit\<close>; the first failure inside a
  \<open>processResponse\<close>, which rejects the whole scan.
\<close>

record scan =
  noDuplicate :: "(string \<times> lqi_rec) list"
  pending :: "(string \<times> (lqi_rec list option) promise) list"
  sink :: "lqi_rec list"
  failure :: "js_error option"

text \<open>
  One pending request is worked off. A rejected request marks the node's record with
  the error and counts as an empty response; \<open>undefined\<close> makes \<open>data.length\<close> throw;
  a list of entries goes through the loop, and a request is sent for every router in
  \<open>set\<close>.
\<close>

definition runTask ::
  "device list \<Rightarrow> (int \<Rightarrow> lqi_rsp promise) \<Rightarrow> bool \<Rightarrow> scan
     \<Rightarrow> string \<times> (lqi_rec list option) promise \<Rightarrow> scan" where
  "runTask devs request emit sc t =
     (case snd t of
        Inl err \<Rightarrow>
          (case map_of (noDuplicate sc) (fst t) of
             None \<Rightarrow> sc
           | Some r \<Rightarrow>
               sc\<lparr>noDuplicate := AList.update (fst t) (r\<lparr>l_error := Some err\<rparr>) (noDuplicate sc)\<rparr>)
      | Inr None \<Rightarrow>
          (if failure sc = None
           then sc\<lparr>failure := Some (TypeError ''Cannot read property length of undefined'')\<rparr>
           else sc)
      | Inr (Some data) \<Rightarrow>
          (let (noDup, st, snk) = processEntries devs emit (fst t) data (noDuplicate sc, [], sink sc)
           in sc\<lparr>noDuplicate := noDup, sink := snk,
                 pending := pending sc @ map (\<lambda>a. (a, lqi devs request a)) st\<rparr>))"

text \<open>
  The code works the requests of one response off in the order they were sent, once
  all of them have settled (\<open>Q.all\<close>); how the requests of different responses
  interleave depends on when the radio answers. A schedule picks, at each step, which
  pending request is next; every order the code can take is a schedule.
\<close>

fun runScan ::
  "device list \<Rightarrow> (int \<Rightarrow> lqi_rsp promise) \<Rightarrow> bool \<Rightarrow> nat list \<Rightarrow> scan \<Rightarrow> scan" where
  "runScan devs request emit [] sc = sc"
| "runScan devs request emit (i # sched) sc =
     runScan devs request emit sched
       (if i < length (pending sc) then
          runTask devs request emit
            (sc\<lparr>pending := take i (pending sc) @ drop (Suc i) (pending sc)\<rparr>)
            (pending sc ! i)
        else sc)"

definition startRec :: "string \<Rightarrow> lqi_rec" where
  "startRec a = \<lparr>l_ieeeAddr = a, l_nwkAddr = None, l_lqi = None, parent = None,
                 l_status = Some ''online'', l_type = Some ''Coordinator'', l_error = None\<rparr>"

text \<open>The start address: the argument, or the coordinator's own when it is falsy.\<close>

definition startOf :: "string \<Rightarrow> string option \<Rightarrow> string" where
  "startOf netIeee startAddr =
     (case startAddr of None \<Rightarrow> netIeee | Some a \<Rightarrow> if a = [] then netIeee else a)"

text \<open>The scan just after \<open>processResponse(startAddr)\<close> has run on the first response.\<close>

definition firstLevel ::
  "device list \<Rightarrow> (int \<Rightarrow> lqi_rsp promise) \<Rightarrow> bool \<Rightarrow> string \<Rightarrow> lqi_rec list \<Rightarrow> scan" where
  "firstLevel devs request emit start data =
     runTask devs request emit
       \<lparr>noDuplicate = [(start, startRec start)], pending = [], sink = [], failure = None\<rparr>
       (start, Inr (Some data))"

text \<open>
  \<open>lqiScan(startAddr, emit)\<close> (lines 437-493) under a schedule. \<open>None\<close>: the schedule ended with
  requests still pending; \<open>Some (Inl err)\<close>: the scan rejects; \<open>Some (Inr recs)\<close>: it
  resolves with \<open>Object.values(noDuplicate)\<close>.
\<close>

definition lqiScan ::
  "device list \<Rightarrow> (int \<Rightarrow> lqi_rsp promise) \<Rightarrow> string \<Rightarrow> nat list \<Rightarrow> string option \<Rightarrow> bool
     \<Rightarrow> (lqi_rec list) promise option" where
  "lqiScan devs request netIeee sched startAddr emit =
     (let start = startOf netIeee startAddr
      in case lqi devs request start of
           Inl err \<Rightarrow> Some (Inl err)
         | Inr None \<Rightarrow> Some (Inl (TypeError ''Cannot read property length of undefined''))
         | Inr (Some data) \<Rightarrow>
             (let sc = runScan devs request emit sched (firstLevel devs request emit start data)
              in case failure sc of
                   Some err \<Rightarrow> Some (Inl err)
                 | None \<Rightarrow>
                     if pending sc = [] then Some (Inr (map snd (noDuplicate sc))) else None))"





text \<open>How much of the scan is left at most: the pending requests, and the registry's
  addresses not yet in \<open>noDuplicate\<close>.\<close>

definition todo :: "device list \<Rightarrow> scan \<Rightarrow> nat" where
  "todo devs sc = length (pending sc) + card (ieeeAddr ` set devs - fst ` set (noDuplicate sc))"

subsection \<open>A small network\<close>








section \<open>Request Router: reads, reports and the cluster cache\<close>

subsection \<open>What a foundation call issues and returns\<close>

lemma updateFinalizer_issued: "issued (updateFinalizer cat af s cId a r) = issued s"
  by (simp add: updateFinalizer_def Let_def split: sum.splits option.splits prod.splits)

lemma updateFinalizer_ep_id: "ep_id (ep (updateFinalizer cat af s cId a r)) = ep_id (ep s)"
  by (simp add: updateFinalizer_def Let_def split: sum.splits option.splits prod.splits)

lemma foundation_issued:
  "issued (snd (foundation cat af s cId c zd)) =
     issued s @ [\<lparr>srcEp = ep_id (ep s), dstEp = ep_id (ep s), req_cId = cId, cmd = c,
                  zclData = zd, cfg = []\<rparr>]"
  by (simp add: foundation_def Let_def updateFinalizer_issued split: sum.splits)

lemma foundation_fst:
  "fst (foundation cat af s cId c zd) =
     zclFoundation af \<lparr>srcEp = ep_id (ep s), dstEp = ep_id (ep s), req_cId = cId, cmd = c,
                  zclData = zd, cfg = []\<rparr>"
  by (simp add: foundation_def Let_def split: sum.splits)

lemma read_unfold:
  "read cat af s cId aId =
     (let (rsp, s') = foundation cat af s cId (JStr ''read'') (zclData (readRequest cat s cId aId))
      in case rsp of
           Inl err \<Rightarrow> (Inl err, s')
         | Inr [] \<Rightarrow> (Inl (TypeError ''Cannot read property status of undefined''), s')
         | Inr (r # rs) \<Rightarrow>
             if status r = JNum 0 then (Inr (attrData r), s')
             else (Inl (Error (''request unsuccess: '' @ js_to_string (status r))), s'))"
  by (simp add: read_def readRequest_def Let_def split: prod.splits sum.splits list.splits)

lemma read_snd:
  "snd (read cat af s cId aId) =
     snd (foundation cat af s cId (JStr ''read'') (zclData (readRequest cat s cId aId)))"
  by (simp add: read_unfold split: prod.splits sum.splits list.splits)

lemma read_fst:
  assumes "zclFoundation af (readRequest cat s cId aId) = Inr (r # rs)"
  shows "fst (read cat af s cId aId) =
     (if status r = JNum 0 then Inr (attrData r)
      else Inl (Error (''request unsuccess: '' @ js_to_string (status r))))"
proof -
  obtain rsp s' where f: "foundation cat af s cId (JStr ''read'') (zclData (readRequest cat s cId aId)) = (rsp, s')"
    by (cases "foundation cat af s cId (JStr ''read'') (zclData (readRequest cat s cId aId))")
  have "rsp = Inr (r # rs)"
    using foundation_fst [of cat af s cId "JStr ''read''" "zclData (readRequest cat s cId aId)"] f assms
    by (simp add: readRequest_def)
  then show ?thesis using f by (simp add: read_unfold)
qed

lemma show_134: "show_int 134 = ''134''"
  by code_simp

text \<open>
  Claim C1. \<open>ep.read(cId, attrId)\<close> hands the AF layer exactly one foundation request,
  the command \<open>read\<close> with the single record \<open>{attrId}\<close>. When the response has a
  first record, the call resolves with that record's \<open>attrData\<close> if its status is 0 and
  otherwise rejects with \<open>request unsuccess: \<close> followed by the status code.
\<close>

theorem read_spec:
  "issued (snd (read cat af s cId aId)) = issued s @ [readRequest cat s cId aId]
   \<and> (\<forall>r rs. zclFoundation af (readRequest cat s cId aId) = Inr (r # rs) \<longrightarrow>
         fst (read cat af s cId aId) =
           (if status r = JNum 0 then Inr (attrData r)
            else Inl (Error (''request unsuccess: '' @ js_to_string (status r)))))"
  using read_fst [of af cat s cId aId]
  by (simp add: read_snd foundation_issued readRequest_def)

text \<open>The literal scenario: the radio answers \<open>attrData = 2400\<close> with status 0, and with
  status 134 the call rejects with that code in the message.\<close>

theorem read_spec_witness:
  "zclFoundation af_ok (readRequest zcat (router_with []) (JStr ''genBasic'') (JStr ''hwVersion''))
     = Inr [\<lparr>attrId = JNum 0, status = JNum 0, dataType = JNum 33, attrData = JNum 2400\<rparr>]
   \<and> fst (read zcat af_ok (router_with []) (JStr ''genBasic'') (JStr ''hwVersion'')) = Inr (JNum 2400)
   \<and> fst (read zcat af_fail (router_with []) (JStr ''genBasic'') (JStr ''hwVersion''))
       = Inl (Error ''request unsuccess: 134'')
   \<and> issued (snd (read zcat af_ok (router_with []) (JStr ''genBasic'') (JStr ''hwVersion'')))
       = [\<lparr>srcEp = 1, dstEp = 1, req_cId = JStr ''genBasic'', cmd = JStr ''read'',
           zclData = ReadRecs [\<lparr>attrId = JNum 0, status = JUndefined, dataType = JUndefined,
                                attrData = JUndefined\<rparr>],
           cfg = []\<rparr>]"
  using read_spec [of zcat af_ok "router_with []" "JStr ''genBasic''" "JStr ''hwVersion''"]
        read_spec [of zcat af_fail "router_with []" "JStr ''genBasic''" "JStr ''hwVersion''"]
  by (simp add: af_ok_def af_fail_def readRequest_def zcat_def router_with_def show_134)

subsection \<open>The cache-update pass\<close>

lemma set_alist_update: "set (AList.update k v al) \<subseteq> insert (k, v) (set al)"
  by (induct al) auto

lemma buildNewAttrs_keys:
  "fst ` set (buildNewAttrs cat cId rep recs acc) = fst ` set acc \<union> (\<lambda>r. attrKey cat cId (attrId r)) ` set recs"
  by (induction recs arbitrary: acc) (auto simp: dom_update)

lemma distinct_buildNewAttrs:
  "distinct (map fst acc) \<Longrightarrow> distinct (map fst (buildNewAttrs cat cId rep recs acc))"
  by (induction recs arbitrary: acc) (simp_all add: distinct_update)

lemma objectDiff_empty:
  "objectDiff oldAttrs newAttrs = [] \<longleftrightarrow> (\<forall>(k, v)\<in>set newAttrs. map_of oldAttrs k = Some v)"
  by (auto simp: objectDiff_def filter_empty_conv)

lemma objectDiff_subset: "set (objectDiff oldAttrs newAttrs) \<subseteq> set newAttrs"
  by (auto simp: objectDiff_def)

lemma distinct_objectDiff:
  "distinct (map fst newAttrs) \<Longrightarrow> distinct (map fst (objectDiff oldAttrs newAttrs))"
  unfolding objectDiff_def by (simp add: distinct_map_filter)

lemma map_of_filter_None:
  "k \<notin> fst ` set xs \<Longrightarrow> map_of (filter P xs) k = None"
  by (induction xs) auto

lemma map_of_objectDiff:
  "distinct (map fst newAttrs) \<Longrightarrow>
   map_of (objectDiff oldAttrs newAttrs) k =
     (case map_of newAttrs k of
        None \<Rightarrow> None
      | Some v \<Rightarrow> if map_of oldAttrs k = Some v then None else Some v)"
  unfolding objectDiff_def
proof (induction newAttrs)
  case Nil
  then show ?case by simp
next
  case (Cons p newAttrs)
  obtain a b where p: "p = (a, b)" by (cases p)
  have d: "distinct (map fst newAttrs)" and n: "a \<notin> fst ` set newAttrs"
    using Cons.prems p by auto
  show ?case
  proof (cases "k = a")
    case True
    then show ?thesis using map_of_filter_None [OF n] by (simp add: p)
  next
    case False
    then show ?thesis using Cons.IH [OF d] by (simp add: p)
  qed
qed

text \<open>The loop over the diff: it runs to its end when no value is undefined, and then
  the diff's entries are what it has set.\<close>

lemma setAttrs_finished:
  "JUndefined \<notin> snd ` set diff \<Longrightarrow> snd (setAttrs diff cache)"
proof (induction diff arbitrary: cache)
  case Nil
  then show ?case by simp
next
  case (Cons p diff)
  obtain a b where p: "p = (a, b)" by (cases p)
  have "b \<noteq> JUndefined" and "JUndefined \<notin> snd ` set diff"
    using Cons.prems p by auto
  then show ?case using Cons.IH [of "AList.update a b cache"] by (simp add: p)
qed

lemma map_of_setAttrs:
  "distinct (map fst diff) \<Longrightarrow> JUndefined \<notin> snd ` set diff \<Longrightarrow>
   map_of (fst (setAttrs diff cache)) k =
     (case map_of diff k of Some v \<Rightarrow> Some v | None \<Rightarrow> map_of cache k)"
proof (induction diff arbitrary: cache)
  case Nil
  then show ?case by simp
next
  case (Cons p diff)
  obtain a b where p: "p = (a, b)" by (cases p)
  have d: "distinct (map fst diff)" and n: "a \<notin> fst ` set diff"
    and u: "b \<noteq> JUndefined" and u': "JUndefined \<notin> snd ` set diff"
    using Cons.prems p by auto
  have na: "map_of diff a = None" using n by (simp add: map_of_eq_None_iff)
  show ?case
    using Cons.IH [OF d u', of "AList.update a b cache"] na u
    by (simp add: p update_conv' split: option.splits)
qed

text \<open>Whether or not the loop runs to its end, an entry it has changed holds the diff's
  value for it.\<close>

lemma setAttrs_partial:
  "distinct (map fst diff) \<Longrightarrow>
   map_of (fst (setAttrs diff cache)) k = map_of cache k
   \<or> (\<exists>v. map_of diff k = Some v \<and> map_of (fst (setAttrs diff cache)) k = Some v)"
proof (induction diff arbitrary: cache)
  case Nil
  then show ?case by simp
next
  case (Cons p diff)
  obtain a b where p: "p = (a, b)" by (cases p)
  have d: "distinct (map fst diff)" and n: "a \<notin> fst ` set diff"
    using Cons.prems p by auto
  have na: "map_of diff a = None" using n by (simp add: map_of_eq_None_iff)
  show ?case
  proof (cases "b = JUndefined")
    case True
    then show ?thesis by (simp add: p)
  next
    case False
    let ?c = "AList.update a b cache"
    have s: "setAttrs (p # diff) cache = setAttrs diff ?c" using False by (simp add: p)
    from Cons.IH [OF d, of ?c]
    show ?thesis
    proof
      assume e: "map_of (fst (setAttrs diff ?c)) k = map_of ?c k"
      show ?thesis
      proof (cases "k = a")
        case True
        then show ?thesis using e by (simp add: s p update_conv')
      next
        case False
        then show ?thesis using e by (simp add: s p update_conv')
      qed
    next
      assume "\<exists>v. map_of diff k = Some v \<and> map_of (fst (setAttrs diff ?c)) k = Some v"
      then obtain v where v: "map_of diff k = Some v" "map_of (fst (setAttrs diff ?c)) k = Some v"
        by blast
      then have "k \<noteq> a" using na by auto
      then show ?thesis using v by (simp add: s p)
    qed
  qed
qed

lemma updateFinalizer_nocache:
  "map_of (clusters (ep s)) (js_to_string (clusterKey cat cId)) = None \<Longrightarrow>
   updateFinalizer cat af s cId (Some recs) rep = s"
  by (simp add: updateFinalizer_def Let_def)

lemma updateFinalizer_cache:
  assumes "map_of (clusters (ep s)) (js_to_string (clusterKey cat cId)) = Some oldAttrs"
  shows "map_of (clusters (ep (updateFinalizer cat af s cId (Some recs) rep)))
           (js_to_string (clusterKey cat cId)) =
         Some (fst (setAttrs (objectDiff oldAttrs (buildNewAttrs cat cId rep recs [])) oldAttrs))"
proof (cases "objectDiff oldAttrs (buildNewAttrs cat cId rep recs []) = []")
  case True
  then show ?thesis using assms by (simp add: updateFinalizer_def Let_def)
next
  case False
  obtain c f where cf: "setAttrs (objectDiff oldAttrs (buildNewAttrs cat cId rep recs [])) oldAttrs = (c, f)"
    by (cases "setAttrs (objectDiff oldAttrs (buildNewAttrs cat cId rep recs [])) oldAttrs")
  show ?thesis using assms False cf by (simp add: updateFinalizer_def Let_def update_conv')
qed

lemma updateFinalizer_emitted_recs:
  "emitted (updateFinalizer cat af s cId (Some recs) rep) =
     emitted s @
       (case map_of (clusters (ep s)) (js_to_string (clusterKey cat cId)) of
          None \<Rightarrow> []
        | Some oldAttrs \<Rightarrow>
            (if objectDiff oldAttrs (buildNewAttrs cat cId rep recs []) = []
                \<or> \<not> snd (setAttrs (objectDiff oldAttrs (buildNewAttrs cat cId rep recs [])) oldAttrs)
             then []
             else [DevChange (ep_id (ep s)) (clusterKey cat cId)
                     (objectDiff oldAttrs (buildNewAttrs cat cId rep recs []))]))"
proof (cases "map_of (clusters (ep s)) (js_to_string (clusterKey cat cId))")
  case None
  then show ?thesis by (simp add: updateFinalizer_def Let_def)
next
  case (Some oldAttrs)
  obtain c f where cf: "setAttrs (objectDiff oldAttrs (buildNewAttrs cat cId rep recs [])) oldAttrs = (c, f)"
    by (cases "setAttrs (objectDiff oldAttrs (buildNewAttrs cat cId rep recs [])) oldAttrs")
  show ?thesis using Some cf by (simp add: updateFinalizer_def Let_def)
qed

subsection \<open>A failed read and the event stream\<close>

lemma buildNewAttrs_failed_vals:
  "\<forall>r\<in>set recs. status r \<noteq> JNum 0 \<Longrightarrow> snd ` set acc \<subseteq> {JNull} \<Longrightarrow>
   snd ` set (buildNewAttrs cat cId False recs acc) \<subseteq> {JNull}"
proof (induction recs arbitrary: acc)
  case Nil
  then show ?case by simp
next
  case (Cons r recs)
  have "snd ` set (AList.update (attrKey cat cId (attrId r)) JNull acc) \<subseteq> {JNull}"
    using Cons.prems(2) set_alist_update [of "attrKey cat cId (attrId r)" JNull acc]
    by fastforce
  then show ?case using Cons by simp
qed

lemma buildNewAttrs_failed_set:
  assumes "\<forall>r\<in>set recs. status r \<noteq> JNum 0"
  shows "set (buildNewAttrs cat cId False recs []) = (\<lambda>r. (attrKey cat cId (attrId r), JNull)) ` set recs"
proof -
  let ?b = "buildNewAttrs cat cId False recs []"
  have k: "fst ` set ?b = (\<lambda>r. attrKey cat cId (attrId r)) ` set recs"
    using buildNewAttrs_keys [of cat cId False recs "[]"] by simp
  have v: "snd ` set ?b \<subseteq> {JNull}"
    using buildNewAttrs_failed_vals [OF assms, of "[]" cat cId] by simp
  have "\<And>p. p \<in> set ?b \<Longrightarrow> snd p = JNull" using v by auto
  then have e: "\<And>p. p \<in> set ?b \<Longrightarrow> p = (fst p, JNull)"
    by (metis prod.collapse)
  show ?thesis
  proof (rule set_eqI, rule iffI)
    fix p assume p: "p \<in> set ?b"
    then have "fst p \<in> (\<lambda>r. attrKey cat cId (attrId r)) ` set recs" using k by blast
    then show "p \<in> (\<lambda>r. (attrKey cat cId (attrId r), JNull)) ` set recs"
      using e [OF p] by auto
  next
    fix p assume "p \<in> (\<lambda>r. (attrKey cat cId (attrId r), JNull)) ` set recs"
    then obtain r where r: "r \<in> set recs" "p = (attrKey cat cId (attrId r), JNull)" by auto
    then have "fst p \<in> fst ` set ?b" using k by auto
    then obtain q where q: "q \<in> set ?b" "fst q = fst p" by auto
    then show "p \<in> set ?b" using e [OF q(1)] r by simp
  qed
qed

lemma foundation_read_emitted:
  assumes "names_read cat"
    and "zclFoundation af \<lparr>srcEp = ep_id (ep s), dstEp = ep_id (ep s), req_cId = cId, cmd = JStr ''read'',
                  zclData = zd, cfg = []\<rparr> = Inr recs"
  shows "snd (foundation cat af s cId (JStr ''read'') zd) =
         updateFinalizer cat af (s\<lparr>issued := issued s @ [\<lparr>srcEp = ep_id (ep s), dstEp = ep_id (ep s), req_cId = cId, cmd = JStr ''read'',
                  zclData = zd, cfg = []\<rparr>]\<rparr>) cId (Some recs) False"
  using assms by (simp add: foundation_def Let_def names_read_def split: option.splits)

lemma failedDiff_props:
  assumes bad: "\<forall>x\<in>set recs. status x \<noteq> JNum 0"
  shows "set (failedDiff cat cId recs oldAttrs) =
           (\<lambda>k. (k, JNull)) ` {k \<in> (\<lambda>x. attrKey cat cId (attrId x)) ` set recs.
                                  map_of oldAttrs k \<noteq> Some JNull}"
    and "distinct (map fst (failedDiff cat cId recs oldAttrs))"
    and "JUndefined \<notin> snd ` set (failedDiff cat cId recs oldAttrs)"
    and "map_of (failedDiff cat cId recs oldAttrs) k =
           (if k \<in> (\<lambda>x. attrKey cat cId (attrId x)) ` set recs \<and> map_of oldAttrs k \<noteq> Some JNull
            then Some JNull else None)"
proof -
  let ?new = "buildNewAttrs cat cId False recs []"
  let ?K = "(\<lambda>x. attrKey cat cId (attrId x)) ` set recs"
  have new: "set ?new = (\<lambda>x. (attrKey cat cId (attrId x), JNull)) ` set recs"
    using buildNewAttrs_failed_set [OF bad] .
  have dn: "distinct (map fst ?new)" by (rule distinct_buildNewAttrs) simp
  have mem: "p \<in> set ?new \<longleftrightarrow> fst p \<in> ?K \<and> snd p = JNull" for p
    unfolding new by (cases p) force
  show d: "distinct (map fst (failedDiff cat cId recs oldAttrs))"
    unfolding failedDiff_def using dn by (rule distinct_objectDiff)
  have fm: "p \<in> set (failedDiff cat cId recs oldAttrs)
             \<longleftrightarrow> fst p \<in> ?K \<and> snd p = JNull \<and> map_of oldAttrs (fst p) \<noteq> Some JNull" for p
    unfolding failedDiff_def objectDiff_def using mem [of p] by (cases p) auto
  show "set (failedDiff cat cId recs oldAttrs) =
           (\<lambda>k. (k, JNull)) ` {k \<in> ?K. map_of oldAttrs k \<noteq> Some JNull}"
  proof (rule set_eqI, rule iffI)
    fix p assume "p \<in> set (failedDiff cat cId recs oldAttrs)"
    then have "fst p \<in> ?K" "snd p = JNull" "map_of oldAttrs (fst p) \<noteq> Some JNull"
      using fm [of p] by simp_all
    then have "fst p \<in> {k \<in> ?K. map_of oldAttrs k \<noteq> Some JNull}" and "p = (fst p, JNull)"
      by (simp_all add: prod_eq_iff)
    then show "p \<in> (\<lambda>k. (k, JNull)) ` {k \<in> ?K. map_of oldAttrs k \<noteq> Some JNull}"
      by (metis (no_types, lifting) imageI)
  next
    fix p assume "p \<in> (\<lambda>k. (k, JNull)) ` {k \<in> ?K. map_of oldAttrs k \<noteq> Some JNull}"
    then obtain k where "k \<in> ?K" "map_of oldAttrs k \<noteq> Some JNull" "p = (k, JNull)" by auto
    then show "p \<in> set (failedDiff cat cId recs oldAttrs)" using fm [of p] by simp
  qed
  show "JUndefined \<notin> snd ` set (failedDiff cat cId recs oldAttrs)"
  proof
    assume "JUndefined \<in> snd ` set (failedDiff cat cId recs oldAttrs)"
    then obtain p where "p \<in> set (failedDiff cat cId recs oldAttrs)" "snd p = JUndefined" by force
    then show False using fm [of p] by simp
  qed
  show "map_of (failedDiff cat cId recs oldAttrs) k =
           (if k \<in> ?K \<and> map_of oldAttrs k \<noteq> Some JNull then Some JNull else None)"
  proof (cases "k \<in> ?K \<and> map_of oldAttrs k \<noteq> Some JNull")
    case True
    then have "(k, JNull) \<in> set (failedDiff cat cId recs oldAttrs)" using fm [of "(k, JNull)"] by simp
    then show ?thesis using True d by simp
  next
    case False
    have "k \<notin> fst ` set (failedDiff cat cId recs oldAttrs)"
    proof
      assume "k \<in> fst ` set (failedDiff cat cId recs oldAttrs)"
      then obtain p where "p \<in> set (failedDiff cat cId recs oldAttrs)" "fst p = k" by force
      then show False using fm [of p] False by simp
    qed
    then have "map_of (failedDiff cat cId recs oldAttrs) k = None"
      by (simp add: map_of_eq_None_iff)
    then show ?thesis using False by (simp only: if_False)
  qed
qed

text \<open>
  Claim C2, as stated, at a concrete input: the cache holds \<open>hwVersion = 2400\<close>, the
  radio answers \<open>[{attrId:0, status:0x86}]\<close>. The read rejects with
  \<open>request unsuccess: 134\<close>, and a \<open>devChange\<close> carrying \<open>hwVersion = null\<close> is emitted.
\<close>

theorem read_failure_emits_devChange:
  "fst (read zcat af_fail (router_with [(''hwVersion'', JNum 2400)]) (JStr ''genBasic'')
          (JStr ''hwVersion'')) = Inl (Error ''request unsuccess: 134'')
   \<and> emitted (snd (read zcat af_fail (router_with [(''hwVersion'', JNum 2400)]) (JStr ''genBasic'')
          (JStr ''hwVersion''))) = [DevChange 1 (JStr ''genBasic'') [(''hwVersion'', JNull)]]"
  by (simp add: read_def foundation_def updateFinalizer_def objectDiff_def clusterKey_def
      attrKey_def af_fail_def zcat_def router_with_def show_134 Let_def)

text \<open>
  Claim C2, amended. When every record of the response has a non-zero status, the read
  rejects with \<open>request unsuccess: \<close> and the first record's status. If the endpoint
  has no cache for the cluster, nothing is cached and no \<open>devChange\<close> is emitted.
  Otherwise every returned attribute is cached as \<open>null\<close> and the other attributes of
  the cluster keep their value; the diff holds \<open>null\<close> for exactly the returned
  attributes whose cached value was not already \<open>null\<close>, each once; no \<open>devChange\<close> is
  emitted when that diff is empty, and otherwise exactly one, carrying that diff.
\<close>

theorem read_failure:
  assumes nr: "names_read cat"
    and rsp: "zclFoundation af (readRequest cat s cId aId) = Inr (r # rs)"
    and bad: "\<forall>x\<in>set (r # rs). status x \<noteq> JNum 0"
  shows "fst (read cat af s cId aId) = Inl (Error (''request unsuccess: '' @ js_to_string (status r)))
    \<and> (map_of (clusters (ep s)) (js_to_string (clusterKey cat cId)) = None \<longrightarrow>
         ep (snd (read cat af s cId aId)) = ep s
         \<and> emitted (snd (read cat af s cId aId)) = emitted s)
    \<and> (\<forall>oldAttrs. map_of (clusters (ep s)) (js_to_string (clusterKey cat cId)) = Some oldAttrs \<longrightarrow>
         (\<forall>k. cached (snd (read cat af s cId aId)) (js_to_string (clusterKey cat cId)) k =
                (if k \<in> (\<lambda>x. attrKey cat cId (attrId x)) ` set (r # rs) then Some JNull
                 else map_of oldAttrs k))
         \<and> set (failedDiff cat cId (r # rs) oldAttrs) =
              (\<lambda>k. (k, JNull)) ` {k \<in> (\<lambda>x. attrKey cat cId (attrId x)) ` set (r # rs).
                                     map_of oldAttrs k \<noteq> Some JNull}
         \<and> distinct (map fst (failedDiff cat cId (r # rs) oldAttrs))
         \<and> emitted (snd (read cat af s cId aId)) =
              emitted s @
                (if failedDiff cat cId (r # rs) oldAttrs = [] then []
                 else [DevChange (ep_id (ep s)) (clusterKey cat cId)
                         (failedDiff cat cId (r # rs) oldAttrs)]))"
proof -
  define ck where "ck = js_to_string (clusterKey cat cId)"
  define s1 where "s1 = s\<lparr>issued := issued s @ [readRequest cat s cId aId]\<rparr>"
  define s' where "s' = snd (read cat af s cId aId)"
  have "status r \<noteq> JNum 0" using bad by simp
  then have c1: "fst (read cat af s cId aId) = Inl (Error (''request unsuccess: '' @ js_to_string (status r)))"
    by (simp add: read_fst [OF rsp])
  have sn: "s' = updateFinalizer cat af s1 cId (Some (r # rs)) False"
    unfolding s'_def s1_def
    using foundation_read_emitted [OF nr, of af s cId "zclData (readRequest cat s cId aId)" "r # rs"] rsp
    by (simp add: read_snd readRequest_def)
  have e1: "ep s1 = ep s" and m1: "emitted s1 = emitted s" by (simp_all add: s1_def)
  have c2: "ep s' = ep s \<and> emitted s' = emitted s" if "map_of (clusters (ep s)) ck = None"
  proof -
    have "map_of (clusters (ep s1)) (js_to_string (clusterKey cat cId)) = None"
      using that by (simp add: e1 ck_def)
    then have "s' = s1" unfolding sn by (rule updateFinalizer_nocache)
    then show ?thesis by (simp add: e1 m1)
  qed
  have c3: "(\<forall>k. cached s' ck k =
                (if k \<in> (\<lambda>x. attrKey cat cId (attrId x)) ` set (r # rs) then Some JNull
                 else map_of oldAttrs k))
         \<and> set (failedDiff cat cId (r # rs) oldAttrs) =
              (\<lambda>k. (k, JNull)) ` {k \<in> (\<lambda>x. attrKey cat cId (attrId x)) ` set (r # rs).
                                     map_of oldAttrs k \<noteq> Some JNull}
         \<and> distinct (map fst (failedDiff cat cId (r # rs) oldAttrs))
         \<and> emitted s' =
              emitted s @
                (if failedDiff cat cId (r # rs) oldAttrs = [] then []
                 else [DevChange (ep_id (ep s)) (clusterKey cat cId)
                         (failedDiff cat cId (r # rs) oldAttrs)])"
    if old: "map_of (clusters (ep s)) ck = Some oldAttrs" for oldAttrs
  proof -
    let ?d = "failedDiff cat cId (r # rs) oldAttrs"
    note fp = failedDiff_props [OF bad, of cat cId oldAttrs]
    have o1: "map_of (clusters (ep s1)) (js_to_string (clusterKey cat cId)) = Some oldAttrs"
      using old by (simp add: e1 ck_def)
    have cl: "map_of (clusters (ep s')) ck = Some (fst (setAttrs ?d oldAttrs))"
      unfolding sn ck_def failedDiff_def by (rule updateFinalizer_cache [OF o1])
    have fin: "snd (setAttrs ?d oldAttrs)" using fp(3) by (rule setAttrs_finished)
    have ca: "cached s' ck k =
                (if k \<in> (\<lambda>x. attrKey cat cId (attrId x)) ` set (r # rs) then Some JNull
                 else map_of oldAttrs k)" for k
    proof -
      have "cached s' ck k = map_of (fst (setAttrs ?d oldAttrs)) k"
        by (simp add: cached_def cl)
      also have "\<dots> = (case map_of ?d k of Some v \<Rightarrow> Some v | None \<Rightarrow> map_of oldAttrs k)"
        using fp(2) fp(3) by (rule map_of_setAttrs)
      also have "\<dots> = (if k \<in> (\<lambda>x. attrKey cat cId (attrId x)) ` set (r # rs) then Some JNull
                 else map_of oldAttrs k)"
        unfolding fp(4) by simp
      finally show ?thesis .
    qed
    have em: "emitted s' =
              emitted s @ (if ?d = [] then [] else [DevChange (ep_id (ep s)) (clusterKey cat cId) ?d])"
      unfolding sn updateFinalizer_emitted_recs
      using o1 fin by (simp add: e1 m1 failedDiff_def)
    show ?thesis using ca fp(1) fp(2) em by blast
  qed
  show ?thesis
    using c1 c2 c3 unfolding s'_def ck_def by blast
qed

text \<open>With \<open>hwVersion\<close> already cached as \<open>null\<close> the failed read emits nothing and the
  entry stays \<open>null\<close>.\<close>

theorem read_failure_witness:
  "names_read zcat
   \<and> zclFoundation af_fail (readRequest zcat (router_with [(''hwVersion'', JNull)])
         (JStr ''genBasic'') (JStr ''hwVersion''))
       = Inr [\<lparr>attrId = JNum 0, status = JNum 134, dataType = JUndefined, attrData = JUndefined\<rparr>]
   \<and> fst (read zcat af_fail (router_with [(''hwVersion'', JNull)]) (JStr ''genBasic'')
          (JStr ''hwVersion'')) = Inl (Error ''request unsuccess: 134'')
   \<and> emitted (snd (read zcat af_fail (router_with [(''hwVersion'', JNull)]) (JStr ''genBasic'')
          (JStr ''hwVersion''))) = []
   \<and> cached (snd (read zcat af_fail (router_with [(''hwVersion'', JNull)]) (JStr ''genBasic'')
          (JStr ''hwVersion''))) ''genBasic'' ''hwVersion'' = Some JNull"
proof -
  let ?s = "router_with [(''hwVersion'', JNull)]"
  let ?r = "\<lparr>attrId = JNum 0, status = JNum 134, dataType = JUndefined, attrData = JUndefined\<rparr>"
  have n: "names_read zcat" by (simp add: names_read_def zcat_def)
  have r: "zclFoundation af_fail (readRequest zcat ?s (JStr ''genBasic'') (JStr ''hwVersion''))
       = Inr [?r]"
    by (simp add: af_fail_def)
  have b: "\<forall>x\<in>set [?r]. status x \<noteq> JNum 0"
    by simp
  have ck: "js_to_string (clusterKey zcat (JStr ''genBasic'')) = ''genBasic''"
    by (simp add: clusterKey_def zcat_def)
  have o: "map_of (clusters (ep ?s)) ''genBasic'' = Some [(''hwVersion'', JNull)]"
    by (simp add: router_with_def)
  have d: "failedDiff zcat (JStr ''genBasic'') [?r] [(''hwVersion'', JNull)] = []"
    by (simp add: failedDiff_def objectDiff_def attrKey_def zcat_def)
  note t = read_failure [OF n r b, unfolded ck]
  have 1: "fst (read zcat af_fail ?s (JStr ''genBasic'') (JStr ''hwVersion''))
            = Inl (Error ''request unsuccess: 134'')"
    using t by (simp add: show_134)
  have 2: "emitted (snd (read zcat af_fail ?s (JStr ''genBasic'') (JStr ''hwVersion''))) = emitted ?s"
    using t o d by simp
  have 3: "cached (snd (read zcat af_fail ?s (JStr ''genBasic'') (JStr ''hwVersion'')))
             ''genBasic'' ''hwVersion'' = Some JNull"
    using t o by (simp add: attrKey_def zcat_def)
  show ?thesis using n r 1 2 3 by (simp add: router_with_def)
qed

subsection \<open>Attribute reports\<close>

lemma map_of_buildNewAttrs_reported:
  "map_of (buildNewAttrs cat cId True recs acc) =
     map_of acc ++ reportedValue cat cId recs"
proof (induction recs arbitrary: acc)
  case Nil
  then show ?case by (simp add: reportedValue_def)
next
  case (Cons r recs)
  have "map_of (buildNewAttrs cat cId True (r # recs) acc) =
        (map_of acc)(attrKey cat cId (attrId r) \<mapsto> attrData r) ++ reportedValue cat cId recs"
    by (simp only: buildNewAttrs.simps Cons.IH update_conv' if_True)
  also have "\<dots> = map_of acc ++ reportedValue cat cId (r # recs)"
    by (simp add: reportedValue_def map_add_def fun_eq_iff split: option.splits)
  finally show ?case .
qed

lemma buildNewAttrs_reported_vals:
  "snd ` set (buildNewAttrs cat cId True recs acc) \<subseteq> snd ` set acc \<union> attrData ` set recs"
proof (induction recs arbitrary: acc)
  case Nil
  then show ?case by simp
next
  case (Cons r recs)
  let ?acc = "AList.update (attrKey cat cId (attrId r)) (attrData r) acc"
  have a: "snd ` set ?acc \<subseteq> insert (attrData r) (snd ` set acc)"
  proof
    fix x assume "x \<in> snd ` set ?acc"
    then obtain p where p: "x = snd p" "p \<in> set ?acc" by (rule imageE)
    have "p \<in> insert (attrKey cat cId (attrId r), attrData r) (set acc)"
      using set_alist_update p(2) by (rule subsetD)
    then have "p = (attrKey cat cId (attrId r), attrData r) \<or> p \<in> set acc" by simp
    then show "x \<in> insert (attrData r) (snd ` set acc)"
    proof
      assume "p = (attrKey cat cId (attrId r), attrData r)"
      then show ?thesis using p(1) by simp
    next
      assume "p \<in> set acc"
      then have "snd p \<in> snd ` set acc" by (rule imageI)
      then show ?thesis using p(1) by simp
    qed
  qed
  have "snd ` set (buildNewAttrs cat cId True (r # recs) acc)
          = snd ` set (buildNewAttrs cat cId True recs ?acc)" by simp
  also have "\<dots> \<subseteq> snd ` set ?acc \<union> attrData ` set recs" by (rule Cons.IH)
  also have "\<dots> \<subseteq> insert (attrData r) (snd ` set acc) \<union> attrData ` set recs"
    using a by (rule Un_mono) (rule subset_refl)
  also have "\<dots> = snd ` set acc \<union> attrData ` set (r # recs)" by simp
  finally show ?case .
qed

lemma buildNewAttrs_reported_status:
  "buildNewAttrs cat cId True (map (\<lambda>r. r\<lparr>status := f r\<rparr>) recs) acc =
   buildNewAttrs cat cId True recs acc"
  by (induction recs arbitrary: acc) simp_all

lemma reportData_status:
  "reportData cat ck (map (\<lambda>r. r\<lparr>status := f r\<rparr>) recs) acc = reportData cat ck recs acc"
  by (induction recs arbitrary: acc) simp_all

lemma on_reported_status:
  "on_reported cat af s cId (map (\<lambda>r. r\<lparr>status := f r\<rparr>) recs) = on_reported cat af s cId recs"
  by (simp add: on_reported_def updateFinalizer_def buildNewAttrs_reported_status reportData_status)

lemma on_reported_unfold:
  "on_reported cat af s cId recs =
     updateFinalizer cat af
       (s\<lparr>emitted := emitted s @ [AttReport (ep_id (ep s)) (clusterKey cat cId)
                 (reportData cat (clusterKey cat cId) recs [])]\<rparr>) cId (Some recs) True"
  by (simp add: on_reported_def Let_def)

lemma on_reported_nocache:
  assumes "map_of (clusters (ep s)) (js_to_string (clusterKey cat cId)) = None"
  shows "ep (on_reported cat af s cId recs) = ep s"
proof -
  let ?s1 = "s\<lparr>emitted := emitted s @ [AttReport (ep_id (ep s)) (clusterKey cat cId)
                 (reportData cat (clusterKey cat cId) recs [])]\<rparr>"
  have "map_of (clusters (ep ?s1)) (js_to_string (clusterKey cat cId)) = None"
    using assms by simp
  then have "updateFinalizer cat af ?s1 cId (Some recs) True = ?s1"
    by (rule updateFinalizer_nocache)
  then show ?thesis unfolding on_reported_unfold by simp
qed

lemma on_reported_cache:
  assumes "map_of (clusters (ep s)) (js_to_string (clusterKey cat cId)) = Some oldAttrs"
  shows "cached (on_reported cat af s cId recs) (js_to_string (clusterKey cat cId)) k =
         map_of (fst (setAttrs (objectDiff oldAttrs (buildNewAttrs cat cId True recs [])) oldAttrs)) k"
proof -
  let ?s1 = "s\<lparr>emitted := emitted s @ [AttReport (ep_id (ep s)) (clusterKey cat cId)
                 (reportData cat (clusterKey cat cId) recs [])]\<rparr>"
  have a: "map_of (clusters (ep ?s1)) (js_to_string (clusterKey cat cId)) = Some oldAttrs"
    using assms by simp
  show ?thesis
    unfolding cached_def on_reported_unfold updateFinalizer_cache [OF a] by simp
qed

lemma on_reported_changed:
  assumes "cached (on_reported cat af s cId recs) (js_to_string (clusterKey cat cId)) k
            \<noteq> cached s (js_to_string (clusterKey cat cId)) k"
  shows "\<exists>v. reportedValue cat cId recs k = Some v
           \<and> cached (on_reported cat af s cId recs) (js_to_string (clusterKey cat cId)) k = Some v"
proof (cases "map_of (clusters (ep s)) (js_to_string (clusterKey cat cId))")
  case None
  then have "ep (on_reported cat af s cId recs) = ep s" by (rule on_reported_nocache)
  then show ?thesis using assms by (simp add: cached_def)
next
  case (Some oldAttrs)
  let ?new = "buildNewAttrs cat cId True recs []"
  let ?d = "objectDiff oldAttrs ?new"
  have dn: "distinct (map fst ?new)" by (rule distinct_buildNewAttrs) simp
  have dd: "distinct (map fst ?d)" using dn by (rule distinct_objectDiff)
  have n: "map_of ?new = reportedValue cat cId recs"
    by (simp add: map_of_buildNewAttrs_reported)
  have c: "cached (on_reported cat af s cId recs) (js_to_string (clusterKey cat cId)) k
            = map_of (fst (setAttrs ?d oldAttrs)) k"
    by (rule on_reported_cache [OF Some])
  have o: "cached s (js_to_string (clusterKey cat cId)) k = map_of oldAttrs k"
    using Some by (simp add: cached_def)
  from setAttrs_partial [OF dd, of oldAttrs k]
  show ?thesis
  proof
    assume "map_of (fst (setAttrs ?d oldAttrs)) k = map_of oldAttrs k"
    then show ?thesis using assms c o by simp
  next
    assume "\<exists>v. map_of ?d k = Some v \<and> map_of (fst (setAttrs ?d oldAttrs)) k = Some v"
    then obtain v where v: "map_of ?d k = Some v" "map_of (fst (setAttrs ?d oldAttrs)) k = Some v"
      by blast
    have "map_of ?new k = Some v"
      using v(1) unfolding map_of_objectDiff [OF dn] by (auto split: option.splits if_splits)
    then show ?thesis using v(2) c n by simp
  qed
qed

lemma on_reported_cached:
  assumes old: "map_of (clusters (ep s)) (js_to_string (clusterKey cat cId)) = Some oldAttrs"
    and defined: "\<forall>r\<in>set recs. attrData r \<noteq> JUndefined"
  shows "cached (on_reported cat af s cId recs) (js_to_string (clusterKey cat cId)) k =
         (case reportedValue cat cId recs k of Some v \<Rightarrow> Some v
          | None \<Rightarrow> cached s (js_to_string (clusterKey cat cId)) k)"
proof -
  let ?new = "buildNewAttrs cat cId True recs []"
  let ?d = "objectDiff oldAttrs ?new"
  have dn: "distinct (map fst ?new)" by (rule distinct_buildNewAttrs) simp
  have dd: "distinct (map fst ?d)" using dn by (rule distinct_objectDiff)
  have n: "map_of ?new = reportedValue cat cId recs"
    by (simp add: map_of_buildNewAttrs_reported)
  have "snd ` set ?new \<subseteq> attrData ` set recs"
    using buildNewAttrs_reported_vals [of cat cId recs "[]"] by simp
  moreover have "snd ` set ?d \<subseteq> snd ` set ?new"
    by (rule image_mono) (rule objectDiff_subset)
  moreover have "JUndefined \<notin> attrData ` set recs" using defined by force
  ultimately have u: "JUndefined \<notin> snd ` set ?d" by blast
  have "cached (on_reported cat af s cId recs) (js_to_string (clusterKey cat cId)) k
          = map_of (fst (setAttrs ?d oldAttrs)) k"
    by (rule on_reported_cache [OF old])
  also have "\<dots> = (case map_of ?d k of Some v \<Rightarrow> Some v | None \<Rightarrow> map_of oldAttrs k)"
    using dd u by (rule map_of_setAttrs)
  also have "\<dots> = (case reportedValue cat cId recs k of Some v \<Rightarrow> Some v
          | None \<Rightarrow> map_of oldAttrs k)"
    unfolding map_of_objectDiff [OF dn] n by (simp split: option.splits)
  finally have f: "cached (on_reported cat af s cId recs) (js_to_string (clusterKey cat cId)) k
          = (case reportedValue cat cId recs k of Some v \<Rightarrow> Some v
             | None \<Rightarrow> map_of oldAttrs k)" .
  have o: "cached s (js_to_string (clusterKey cat cId)) k = map_of oldAttrs k"
    using old by (simp add: cached_def)
  show ?thesis unfolding o by (rule f)
qed

text \<open>
  Claim C6, as stated, at a concrete input: the endpoint caches only \<open>genBasic\<close>, and a
  report for cluster 6 arrives with \<open>{attrId: 0, attrData: true}\<close>. The reported value
  differs from what is cached for that attribute (nothing), yet the pass writes nothing:
  reading \<open>clusters[6].attrs\<close> throws and the failure is swallowed.
\<close>

theorem report_without_cluster_cache:
  "reportedValue zcat (JNum 6)
       [\<lparr>attrId = JNum 0, status = JUndefined, dataType = JNum 16, attrData = JBool True\<rparr>] ''0''
     = Some (JBool True)
   \<and> cached (router_with [(''hwVersion'', JNum 2400)]) ''6'' ''0'' = None
   \<and> cached (on_reported zcat af_ok (router_with [(''hwVersion'', JNum 2400)]) (JNum 6)
         [\<lparr>attrId = JNum 0, status = JUndefined, dataType = JNum 16, attrData = JBool True\<rparr>])
       ''6'' ''0'' = None
   \<and> ep (on_reported zcat af_ok (router_with [(''hwVersion'', JNum 2400)]) (JNum 6)
         [\<lparr>attrId = JNum 0, status = JUndefined, dataType = JNum 16, attrData = JBool True\<rparr>])
     = ep (router_with [(''hwVersion'', JNum 2400)])"
proof -
  have 6: "show_int 6 = ''6''" by code_simp
  have 0: "show_int 0 = ''0''" by code_simp
  show ?thesis
    by (simp add: on_reported_def updateFinalizer_def reportedValue_def cached_def attrKey_def
        clusterKey_def zcat_def router_with_def 6 0 Let_def)
qed

text \<open>
  A report whose record carries no value, over a cached \<open>hwVersion = 2400\<close>: the cluster
  table refuses the undefined value, the entry stays 2400 and no \<open>devChange\<close> follows
  the \<open>attReport\<close>.
\<close>

lemma report_undefined_value_kept:
  "cached (on_reported zcat af_ok (router_with [(''hwVersion'', JNum 2400)]) (JNum 0)
         [\<lparr>attrId = JNum 0, status = JUndefined, dataType = JNum 32, attrData = JUndefined\<rparr>])
       ''genBasic'' ''hwVersion'' = Some (JNum 2400)
   \<and> emitted (on_reported zcat af_ok (router_with [(''hwVersion'', JNum 2400)]) (JNum 0)
         [\<lparr>attrId = JNum 0, status = JUndefined, dataType = JNum 32, attrData = JUndefined\<rparr>])
     = [AttReport 1 (JStr ''genBasic'') [(''hwVersion'', JUndefined)]]"
  by (simp add: on_reported_def updateFinalizer_def objectDiff_def cached_def attrKey_def
      clusterKey_def zcat_def router_with_def Let_def)

text \<open>
  Claim C6, amended. In the cache-update pass of an attribute report (\<open>reported = true\<close>)
  the records' status fields play no part. If the endpoint has no cache for the reported
  cluster, the pass leaves the endpoint as it was. In every case, a cache entry of the
  cluster that the pass changes holds afterwards the value reported for it. If the
  endpoint has a cache for the cluster and every record carries a value, every reported
  attribute ends up cached with the reported value (the last record for the attribute),
  the other attributes keep their value, and an attribute's cache entry changes if and
  only if a value was reported for it that differs from the value cached before.
\<close>

theorem reported_overwrites_cache:
  "on_reported cat af s cId (map (\<lambda>r. r\<lparr>status := f r\<rparr>) recs) = on_reported cat af s cId recs
   \<and> (map_of (clusters (ep s)) (js_to_string (clusterKey cat cId)) = None \<longrightarrow>
        ep (on_reported cat af s cId recs) = ep s)
   \<and> (cached (on_reported cat af s cId recs) (js_to_string (clusterKey cat cId)) k
          \<noteq> cached s (js_to_string (clusterKey cat cId)) k \<longrightarrow>
        (\<exists>v. reportedValue cat cId recs k = Some v
            \<and> cached (on_reported cat af s cId recs) (js_to_string (clusterKey cat cId)) k = Some v))
   \<and> (map_of (clusters (ep s)) (js_to_string (clusterKey cat cId)) \<noteq> None
        \<and> (\<forall>r\<in>set recs. attrData r \<noteq> JUndefined) \<longrightarrow>
        cached (on_reported cat af s cId recs) (js_to_string (clusterKey cat cId)) k =
           (case reportedValue cat cId recs k of Some v \<Rightarrow> Some v
            | None \<Rightarrow> cached s (js_to_string (clusterKey cat cId)) k)
        \<and> (cached (on_reported cat af s cId recs) (js_to_string (clusterKey cat cId)) k
              \<noteq> cached s (js_to_string (clusterKey cat cId)) k
            \<longleftrightarrow> (\<exists>v. reportedValue cat cId recs k = Some v
                     \<and> cached s (js_to_string (clusterKey cat cId)) k \<noteq> Some v)))"
proof -
  let ?ck = "js_to_string (clusterKey cat cId)"
  let ?s' = "on_reported cat af s cId recs"
  have 1: "on_reported cat af s cId (map (\<lambda>r. r\<lparr>status := f r\<rparr>) recs) = ?s'"
    by (rule on_reported_status)
  have 2: "map_of (clusters (ep s)) ?ck = None \<longrightarrow> ep ?s' = ep s"
    by (rule impI) (rule on_reported_nocache)
  have 3: "cached ?s' ?ck k \<noteq> cached s ?ck k \<longrightarrow>
        (\<exists>v. reportedValue cat cId recs k = Some v \<and> cached ?s' ?ck k = Some v)"
    by (rule impI) (rule on_reported_changed)
  have 4: "map_of (clusters (ep s)) ?ck \<noteq> None \<and> (\<forall>r\<in>set recs. attrData r \<noteq> JUndefined) \<longrightarrow>
        cached ?s' ?ck k =
           (case reportedValue cat cId recs k of Some v \<Rightarrow> Some v | None \<Rightarrow> cached s ?ck k)
        \<and> (cached ?s' ?ck k \<noteq> cached s ?ck k
            \<longleftrightarrow> (\<exists>v. reportedValue cat cId recs k = Some v \<and> cached s ?ck k \<noteq> Some v))"
  proof (rule impI)
    assume a: "map_of (clusters (ep s)) ?ck \<noteq> None \<and> (\<forall>r\<in>set recs. attrData r \<noteq> JUndefined)"
    then obtain oldAttrs where old: "map_of (clusters (ep s)) ?ck = Some oldAttrs" by blast
    have df: "\<forall>r\<in>set recs. attrData r \<noteq> JUndefined" using a by (rule conjunct2)
    note c = on_reported_cached [OF old df, of af k]
    have i: "cached ?s' ?ck k \<noteq> cached s ?ck k
            \<longleftrightarrow> (\<exists>v. reportedValue cat cId recs k = Some v \<and> cached s ?ck k \<noteq> Some v)"
      unfolding c by (cases "reportedValue cat cId recs k") auto
    show "cached ?s' ?ck k =
           (case reportedValue cat cId recs k of Some v \<Rightarrow> Some v | None \<Rightarrow> cached s ?ck k)
        \<and> (cached ?s' ?ck k \<noteq> cached s ?ck k
            \<longleftrightarrow> (\<exists>v. reportedValue cat cId recs k = Some v \<and> cached s ?ck k \<noteq> Some v))"
      using c i by (rule conjI)
  qed
  show ?thesis using 1 2 3 4 by (intro conjI)
qed

text \<open>A report of \<open>hwVersion = 2500\<close> over a cached 2400, its record carrying status
  \<open>0x86\<close>.\<close>

theorem reported_overwrites_cache_witness:
  "map_of (clusters (ep (router_with [(''hwVersion'', JNum 2400)])))
      (js_to_string (clusterKey zcat (JNum 0))) = Some [(''hwVersion'', JNum 2400)]
   \<and> JUndefined \<notin> attrData `
        set [\<lparr>attrId = JNum 0, status = JNum 134, dataType = JNum 32, attrData = JNum 2500\<rparr>]
   \<and> cached (on_reported zcat af_ok (router_with [(''hwVersion'', JNum 2400)]) (JNum 0)
         [\<lparr>attrId = JNum 0, status = JNum 134, dataType = JNum 32, attrData = JNum 2500\<rparr>])
       ''genBasic'' ''hwVersion'' = Some (JNum 2500)
   \<and> cached (router_with [(''hwVersion'', JNum 2400)]) ''genBasic'' ''hwVersion'' = Some (JNum 2400)"
proof -
  let ?s = "router_with [(''hwVersion'', JNum 2400)]"
  let ?recs = "[\<lparr>attrId = JNum 0, status = JNum 134, dataType = JNum 32, attrData = JNum 2500\<rparr>]"
  have c: "map_of (clusters (ep ?s)) (js_to_string (clusterKey zcat (JNum 0)))
             = Some [(''hwVersion'', JNum 2400)]"
    by (simp add: router_with_def clusterKey_def zcat_def)
  have ck: "js_to_string (clusterKey zcat (JNum 0)) = ''genBasic''"
    by (simp add: clusterKey_def zcat_def)
  have u: "\<forall>r\<in>set ?recs. attrData r \<noteq> JUndefined" by simp
  have h: "map_of (clusters (ep ?s)) (js_to_string (clusterKey zcat (JNum 0))) \<noteq> None
           \<and> (\<forall>r\<in>set ?recs. attrData r \<noteq> JUndefined)"
    using c u by simp
  note t = reported_overwrites_cache [of zcat af_ok ?s "JNum 0" "\<lambda>r. JUndefined" ?recs "''hwVersion''"]
  note t4 = conjunct2 [OF conjunct2 [OF conjunct2 [OF t]]]
  note t5 = conjunct1 [OF mp [OF t4 h]]
  have r: "reportedValue zcat (JNum 0) ?recs ''hwVersion'' = Some (JNum 2500)"
    by (simp add: reportedValue_def attrKey_def zcat_def)
  have 1: "cached (on_reported zcat af_ok ?s (JNum 0) ?recs) ''genBasic'' ''hwVersion''
            = Some (JNum 2500)"
    using t5 unfolding ck r by simp
  have 2: "cached ?s ''genBasic'' ''hwVersion'' = Some (JNum 2400)"
    by (simp add: cached_def router_with_def)
  show ?thesis using c 1 2 by simp
qed

subsection \<open>Configuring a report\<close>

text \<open>
  Claim C10, as stated, at a concrete input: the delegator exists, the bind succeeds and
  the radio answers the \<open>configReport\<close> with status \<open>0x4d\<close>, for which the catalog has
  no name. Reading \<open>.key\<close> of the missing name throws inside the handler: the promise
  returned to the caller rejects with that \<open>TypeError\<close> and the internal \<open>deferred\<close>
  is never settled.
\<close>

theorem report_unnamed_status_rejects:
  "returned (report zcat af_unnamed ctl_ok (router_with [])
       (ReportCfg (JStr ''genBasic'') (JStr ''hwVersion'') (JNum 1) (JNum 60) (JNum 1)))
     = Inr (Inl (TypeError ''Cannot read property key of undefined''))
   \<and> deferred (report zcat af_unnamed ctl_ok (router_with [])
       (ReportCfg (JStr ''genBasic'') (JStr ''hwVersion'') (JNum 1) (JNum 60) (JNum 1)))
     = None"
proof -
  let ?rec = "\<lparr>direction = 0, rpt_attrId = JNum 0, rpt_dataType = JNum 32,
               minRepIntval = JNum 1, maxRepIntval = JNum 60, repChange = JNum 1\<rparr>"
  let ?r = "\<lparr>attrId = JNum 0, status = JNum 77, dataType = JUndefined, attrData = JUndefined\<rparr>"
  obtain q s' where f: "foundation zcat af_unnamed (router_with []) (JStr ''genBasic'')
                          (JStr ''configReport'') (CfgRptRecs [?rec]) = (q, s')"
    by (cases "foundation zcat af_unnamed (router_with []) (JStr ''genBasic'')
                 (JStr ''configReport'') (CfgRptRecs [?rec])")
  have "q = Inr [?r]"
    using foundation_fst [of zcat af_unnamed "router_with []" "JStr ''genBasic''"
        "JStr ''configReport''" "CfgRptRecs [?rec]"] f
    by (simp add: af_unnamed_def)
  then show ?thesis
    using f by (simp add: report_def ctl_ok_def router_with_def zcat_def)
qed

text \<open>
  Claim C10, amended. When the coordinator has a delegator for the endpoint's profile and
  the bind succeeds, a \<open>configReport\<close> response whose first record has a non-zero status
  that the catalog has a name for still lets the promise returned by \<open>ep.report\<close> resolve
  with \<open>undefined\<close>; the status name only rejects the internal \<open>deferred\<close>, which the
  caller never sees. For a non-zero status without a name the returned promise rejects
  with a \<open>TypeError\<close> and the internal \<open>deferred\<close> stays unsettled.
\<close>

theorem report_swallows_failure:
  assumes coord: "getCoord ctl = Some getDelegator"
    and dlg: "getDelegator (profId (ep s)) = Some dlgEp"
    and bnd: "bind ctl (ep_id (ep s)) cId dlgEp = Inr ()"
    and rec: "cfgRptRec cat (ReportCfg cId aId minInt maxInt rc) = Inr (Some rec)"
    and rsp: "zclFoundation af (cfgReportRequest cat s (ReportCfg cId aId minInt maxInt rc) rec) = Inr (r # rs)"
    and bad: "status r \<noteq> JNum 0"
  shows "(\<forall>i. cat_status cat (status r) = Some i \<longrightarrow>
            returned (report cat af ctl s (ReportCfg cId aId minInt maxInt rc)) = Inr (Inr JUndefined)
            \<and> deferred (report cat af ctl s (ReportCfg cId aId minInt maxInt rc)) = Some (key i))
       \<and> (cat_status cat (status r) = None \<longrightarrow>
            returned (report cat af ctl s (ReportCfg cId aId minInt maxInt rc))
              = Inr (Inl (TypeError ''Cannot read property key of undefined''))
            \<and> deferred (report cat af ctl s (ReportCfg cId aId minInt maxInt rc)) = None)"
proof -
  obtain q s' where f: "foundation cat af s cId (JStr ''configReport'') (CfgRptRecs [rec]) = (q, s')"
    by (cases "foundation cat af s cId (JStr ''configReport'') (CfgRptRecs [rec])")
  have "q = Inr (r # rs)"
    using foundation_fst [of cat af s cId "JStr ''configReport''" "CfgRptRecs [rec]"] f rsp
    by (simp add: cfgReportRequest_def)
  then show ?thesis
    using coord dlg bnd rec bad f
    by (simp add: report_def del: cfgRptRec.simps)
qed

text \<open>The radio answers status \<open>0x86\<close>, which the catalog names \<open>unsupAttribute\<close>.\<close>

theorem report_swallows_failure_witness:
  "returned (report zcat af_fail ctl_ok (router_with [])
       (ReportCfg (JStr ''genBasic'') (JStr ''hwVersion'') (JNum 1) (JNum 60) (JNum 1)))
     = Inr (Inr JUndefined)
   \<and> deferred (report zcat af_fail ctl_ok (router_with [])
       (ReportCfg (JStr ''genBasic'') (JStr ''hwVersion'') (JNum 1) (JNum 60) (JNum 1)))
     = Some ''unsupAttribute''"
proof -
  let ?rec = "\<lparr>direction = 0, rpt_attrId = JNum 0, rpt_dataType = JNum 32,
               minRepIntval = JNum 1, maxRepIntval = JNum 60, repChange = JNum 1\<rparr>"
  let ?r = "\<lparr>attrId = JNum 0, status = JNum 134, dataType = JUndefined, attrData = JUndefined\<rparr>"
  have 1: "getCoord ctl_ok = Some (\<lambda>p. if p = 260 then Some 1 else None)"
    by (simp add: ctl_ok_def)
  have 2: "(\<lambda>p. if p = 260 then Some 1 else None) (profId (ep (router_with []))) = Some (1::nat)"
    by (simp add: router_with_def)
  have 3: "bind ctl_ok (ep_id (ep (router_with []))) (JStr ''genBasic'') 1 = Inr ()"
    by (simp add: ctl_ok_def)
  have 4: "cfgRptRec zcat (ReportCfg (JStr ''genBasic'') (JStr ''hwVersion'') (JNum 1) (JNum 60) (JNum 1))
           = Inr (Some ?rec)"
    by (simp add: zcat_def)
  have 5: "zclFoundation af_fail (cfgReportRequest zcat (router_with [])
             (ReportCfg (JStr ''genBasic'') (JStr ''hwVersion'') (JNum 1) (JNum 60) (JNum 1)) ?rec)
           = Inr (?r # [])"
    by (simp add: af_fail_def)
  have 6: "status ?r \<noteq> JNum 0" by simp
  have 7: "cat_status zcat (status ?r) = Some \<lparr>key = ''unsupAttribute'', val = JNum 134\<rparr>"
    by (simp add: zcat_def)
  note t = conjunct1 [OF report_swallows_failure [OF 1 2 3 4 5 6]]
  show ?thesis
    using t [rule_format, OF 7] by simp
qed

section \<open>Mount: the chain, the list of applications and the queue\<close>

subsection \<open>The endpoint id a mount assigns\<close>

lemma Math_max_Max: "xs \<noteq> [] \<Longrightarrow> Math_max xs = Some (Max (set xs))"
proof (cases xs)
  case Nil
  assume "xs \<noteq> []"
  with Nil show ?thesis by simp
next
  case (Cons a list)
  have "fold max list a = Max (set (a # list))" by (rule Max.set_eq_fold [symmetric])
  then show ?thesis unfolding Cons by (simp only: Math_max.simps)
qed

lemma mountEpId_Max:
  "mountEpId epl = (if epl \<noteq> [] \<and> Max (set epl) > 10 then Max (set epl) + 1 else 11)"
proof (cases "epl = []")
  case True
  then show ?thesis by (simp add: mountEpId_def)
next
  case False
  then show ?thesis by (simp add: mountEpId_def Math_max_Max)
qed

lemma mount_chain_resolved:
  assumes "mount_chain env s z = (Inr v, s', z')"
  shows "\<exists>c. coordinator s = Some c \<and> v = JNum (mountEpId (epList c))"
  using assms
  by (auto simp: mount_chain_def Let_def Coordpoint_def getEpId_def split: if_splits option.splits sum.splits)

text \<open>
  Claim C4. A mount that resolves found a coordinator; the endpoint id it assigned to the
  new Coordpoint is \<open>max(coord.epList) + 1\<close> when that maximum exceeds 10 and 11
  otherwise (also for an empty list); the Coordpoint sits in the coordinator's endpoint
  table under that id, and the mount resolves with exactly that id.
\<close>

theorem mount_resolves_with_assigned_id:
  assumes "mount_chain env s z = (Inr v, s', z')"
  shows "\<exists>c c' loEp. coordinator s = Some c
           \<and> v = JNum (if epList c \<noteq> [] \<and> Max (set (epList c)) > 10
                        then Max (set (epList c)) + 1 else 11)
           \<and> z_endpoint z' = Some loEp \<and> getEpId loEp = v
           \<and> sd_epId (simpleDesc z') = v
           \<and> coordinator s' = Some c'
           \<and> map_of (endpoints c') (js_to_string v) = Some loEp"
  using assms unfolding mountEpId_Max [symmetric]
  by (auto simp: mount_chain_def Let_def Coordpoint_def getEpId_def update_conv'
      split: if_splits option.splits sum.splits)


theorem mount_resolves_with_assigned_id_witness:
  "fst (mount_chain (env_ok [1, 2, 11, 12, 13])
          (shepherd0 (Some \<lparr>epList = [1, 2, 11, 12], endpoints = []\<rparr>)) (app 0)) = Inr (JNum 13)
   \<and> fst (mount_chain (env_ok [1, 2, 3, 4, 5, 6, 8, 11]) (shepherd0 (Some coord0)) (app 0))
       = Inr (JNum 11)"
proof -
  let ?m1 = "mount_chain (env_ok [1, 2, 11, 12, 13])
          (shepherd0 (Some \<lparr>epList = [1, 2, 11, 12], endpoints = []\<rparr>)) (app 0)"
  let ?m2 = "mount_chain (env_ok [1, 2, 3, 4, 5, 6, 8, 11]) (shepherd0 (Some coord0)) (app 0)"
  obtain v1 where v1: "?m1 = (Inr v1, fst (snd ?m1), snd (snd ?m1))"
    by (simp add: mount_chain_def env_ok_def shepherd0_def app_def Let_def)
  obtain v2 where v2: "?m2 = (Inr v2, fst (snd ?m2), snd (snd ?m2))"
    by (simp add: mount_chain_def env_ok_def shepherd0_def app_def coord0_def Let_def)
  have "v1 = JNum 13"
    using mount_resolves_with_assigned_id [OF v1] by (simp add: shepherd0_def)
  moreover have "v2 = JNum 11"
    using mount_resolves_with_assigned_id [OF v2] by (simp add: shepherd0_def coord0_def)
  ultimately show ?thesis using v1 v2 by (metis fst_conv)
qed

subsection \<open>A failed mount stays in the list of applications\<close>



lemma mount_chain_mounting:
  "mounting (fst (snd (mount_chain env s z))) = mounting s"
  by (simp add: mount_chain_def Let_def split: option.splits sum.splits)

lemma mount_chain_mountQueue:
  "mountQueue (fst (snd (mount_chain env s z))) = mountQueue s"
  by (simp add: mount_chain_def Let_def split: option.splits sum.splits)








subsection \<open>One mount at a time\<close>

lemma mount_enter_serialized: "serialized y \<Longrightarrow> serialized (mount_enter z d p y)"
  by (auto simp: serialized_def mount_enter_def)

lemma complete_sh:
  assumes "running y = (z, d) # rest"
  shows "mounting (sh (step (Complete env) y)) = False"
    and "mountQueue (sh (step (Complete env) y)) = mountQueue (sh y)"
    and "running (step (Complete env) y) = rest"
    and "started (step (Complete env) y) = started y"
    and "next_deferred (step (Complete env) y) = next_deferred y"
    and "crashed (step (Complete env) y) = (crashed y \<or> d \<in> set (nodebacks y))"
    and "nodebacks (step (Complete env) y) = nodebacks y"
    and "ticks (step (Complete env) y) = (if mountQueue (sh y) \<noteq> [] then Suc (ticks y) else ticks y)"
    and "settled (step (Complete env) y) = settled y @ [(d, fst (mount_chain env (sh y) z))]"
proof -
  obtain out s' z' where c: "mount_chain env (sh y) z = (out, s', z')"
    by (cases "mount_chain env (sh y) z")
  have q: "mountQueue s' = mountQueue (sh y)"
    using mount_chain_mountQueue [of env "sh y" z] c by simp
  show "mounting (sh (step (Complete env) y)) = False"
    and "mountQueue (sh (step (Complete env) y)) = mountQueue (sh y)"
    and "running (step (Complete env) y) = rest"
    and "started (step (Complete env) y) = started y"
    and "next_deferred (step (Complete env) y) = next_deferred y"
    and "crashed (step (Complete env) y) = (crashed y \<or> d \<in> set (nodebacks y))"
    and "nodebacks (step (Complete env) y) = nodebacks y"
    and "ticks (step (Complete env) y) = (if mountQueue (sh y) \<noteq> [] then Suc (ticks y) else ticks y)"
    and "settled (step (Complete env) y) = settled y @ [(d, fst (mount_chain env (sh y) z))]"
    using assms c q by simp_all
qed

lemma step_serialized: "serialized y \<Longrightarrow> serialized (step e y)"
proof (cases e)
  case (Call z)
  assume "serialized y"
  then have "serialized (y\<lparr>next_deferred := Suc (next_deferred y)\<rparr>)"
    by (simp add: serialized_def)
  then show ?thesis using Call by (simp add: mount_enter_serialized)
next
  case (Complete env)
  assume s: "serialized y"
  show ?thesis
  proof (cases "running y")
    case Nil
    then show ?thesis using Complete s by simp
  next
    case (Cons p rest)
    obtain z d where p: "p = (z, d)" by (cases p)
    have r: "rest = []" using s Cons by (simp add: serialized_def)
    show ?thesis
      unfolding Complete serialized_def
      using complete_sh(1,3) [of y z d rest env] Cons p r by simp
  qed
next
  case Tick
  assume s: "serialized y"
  show ?thesis
  proof (cases "ticks y = 0")
    case True
    then show ?thesis using Tick s by simp
  next
    case False
    show ?thesis
    proof (cases "mountQueue (sh y)")
      case Nil
      then show ?thesis using Tick s False by (simp add: serialized_def)
    next
      case (Cons p q)
      obtain z d where p: "p = (z, d)" by (cases p)
      have "serialized (y\<lparr>ticks := ticks y - 1, sh := (sh y)\<lparr>mountQueue := q\<rparr>\<rparr>)"
        using s by (simp add: serialized_def)
      then show ?thesis using Tick False Cons p by (simp add: mount_enter_serialized)
    qed
  qed
qed

lemma run_serialized: "serialized y \<Longrightarrow> serialized (run evs y)"
  by (induction evs arbitrary: y) (simp_all add: step_serialized)

lemma init_serialized: "serialized (init_sys c)"
  by (simp add: serialized_def init_sys_def)

lemma init_timed: "timed (init_sys c)"
  by (simp add: timed_def serialized_def fifo_def init_sys_def)

lemma step_timed:
  assumes t: "timed y"
    and w: "case e of Call z \<Rightarrow> ticks y = 0 | Complete env \<Rightarrow> True | Tick \<Rightarrow> True"
  shows "timed (step e y)"
proof (cases e)
  case (Call z)
  have t0: "ticks y = 0" using w Call by simp
  show ?thesis
  proof (cases "mounting (sh y)")
    case True
    then show ?thesis using t t0 Call
      by (simp add: timed_def serialized_def fifo_def mount_enter_def)
  next
    case False
    then have "mountQueue (sh y) = []" using t t0 by (simp add: timed_def split: if_splits)
    then show ?thesis using t t0 Call False
      by (simp add: timed_def serialized_def fifo_def mount_enter_def)
  qed
next
  case (Complete env)
  show ?thesis
  proof (cases "running y")
    case Nil
    then show ?thesis using Complete t by simp
  next
    case (Cons p rest)
    obtain z d where p: "p = (z, d)" by (cases p)
    have r: "rest = []" and m: "mounting (sh y)" using t Cons by (simp_all add: timed_def serialized_def)
    have t0: "ticks y = 0" using t m by (simp add: timed_def)
    note c = complete_sh [of y z d rest env, OF Cons [unfolded p]]
    show ?thesis
      unfolding Complete timed_def serialized_def fifo_def c
      using t r t0 by (simp add: timed_def fifo_def)
  qed
next
  case Tick
  show ?thesis
  proof (cases "ticks y = 0")
    case True
    then show ?thesis using Tick t by simp
  next
    case False
    then have nm: "\<not> mounting (sh y)" and ne: "mountQueue (sh y) \<noteq> []" and t1: "ticks y = 1"
      using t by (simp_all add: timed_def split: if_splits)
    then obtain z d q where q: "mountQueue (sh y) = (z, d) # q"
      by (cases "mountQueue (sh y)") auto
    show ?thesis using t Tick nm t1 q
      by (simp add: timed_def serialized_def fifo_def mount_enter_def)
  qed
qed

lemma run_timed: "timed y \<Longrightarrow> well_timed evs y \<Longrightarrow> timed (run evs y)"
proof (induction evs arbitrary: y)
  case Nil
  then show ?case by simp
next
  case (Cons e evs)
  have "timed (step e y)" using Cons.prems by (intro step_timed) simp_all
  moreover have "well_timed evs (step e y)" using Cons.prems by simp
  ultimately have "timed (run evs (step e y))" by (rule Cons.IH)
  moreover have "\<not> crashed y" using Cons.prems(1) by (simp add: timed_def)
  ultimately show ?case by simp
qed

text \<open>
  What the serializer guarantees: in every run at most one chain is in flight, and
  \<open>_mounting\<close> is set exactly while one is. In a run where no call arrives while a
  drain callback is scheduled, the chains start in the order of the calls and no drain
  callback finds the queue empty.
\<close>

lemma mount_serialization:
  "serialized (run evs (init_sys c))
   \<and> (well_timed evs (init_sys c) \<longrightarrow>
        fifo (run evs (init_sys c)) \<and> \<not> crashed (run evs (init_sys c)))"
  using run_serialized [OF init_serialized, of evs c] run_timed [OF init_timed, of evs c]
  by (auto simp: timed_def)

text \<open>
  Claim C3, at two runs in which a call arrives after the \<open>done\<close> handler has cleared
  \<open>_mounting\<close> and before the drain callback it scheduled has run. First run: calls
  0, 1, 2; chain 0 completes; call 3 arrives and starts at once; the drain callback
  shifts entry 1, finds a mount in flight and pushes it behind entry 2: the chains start
  in the order 0, 3, 2, 1. Second run: calls 0, 1; chain 0 completes; the same
  application is mounted again and its chain is rejected before the drain callback
  runs, which schedules a second one; the first starts entry 1, the second finds the
  queue empty and throws.
\<close>

theorem mount_queue_overtaken:
  "started (run [Call (app 0), Call (app 1), Call (app 2), Complete (env_ok [1, 11]),
                 Call (app 3), Tick, Complete (env_ok [1, 11, 12]), Tick,
                 Complete (env_ok [1, 11, 12, 13]), Tick, Complete (env_ok [1, 11, 12, 13, 14])]
             (init_sys (Some coord0))) = [0, 3, 2, 1]
   \<and> crashed (run [Call (app 0), Call (app 1), Complete (env_ok [1, 11]), Call (app 0),
                   Complete (env_ok [1, 11]), Tick, Tick]
               (init_sys (Some coord0)))"
  by (simp add: init_sys_def app_def env_ok_def coord0_def mount_enter_def mount_chain_def
      Let_def Coordpoint_def getEpId_def mountEpId_def show_int_def show_nat.simps)

text \<open>
  In the first of these runs the drain callback's call finds a mount in flight, so
  entry 1 is queued again and its deferred registers itself as the nodeback of its own
  promise. Nothing is thrown until the mount of entry 1 settles, at the end of the run.
\<close>

lemma requeued_mount_throws:
  "nodebacks (run [Call (app 0), Call (app 1), Call (app 2), Complete (env_ok [1, 11]),
                   Call (app 3), Tick]
               (init_sys (Some coord0))) = [1]
   \<and> \<not> crashed (run [Call (app 0), Call (app 1), Call (app 2), Complete (env_ok [1, 11]),
                 Call (app 3), Tick, Complete (env_ok [1, 11, 12]), Tick,
                 Complete (env_ok [1, 11, 12, 13]), Tick]
             (init_sys (Some coord0)))
   \<and> crashed (run [Call (app 0), Call (app 1), Call (app 2), Complete (env_ok [1, 11]),
                 Call (app 3), Tick, Complete (env_ok [1, 11, 12]), Tick,
                 Complete (env_ok [1, 11, 12, 13]), Tick, Complete (env_ok [1, 11, 12, 13, 14])]
             (init_sys (Some coord0)))"
  by (simp add: init_sys_def app_def env_ok_def coord0_def mount_enter_def mount_chain_def
      Let_def Coordpoint_def getEpId_def mountEpId_def show_int_def show_nat.simps)

section \<open>Reset and the persistent store\<close>




section \<open>Listing devices\<close>

lemma foundDevs_strings:
  "foundDevs devs dump (map JStr as) = Inr (map (slot devs dump) as)"
  by (induction as) (simp_all add: findDevByAddr_def slot_def)

lemma slot_None: "slot devs dump a = None \<longleftrightarrow> a \<notin> ieeeAddr ` set devs"
  by (auto simp: slot_def find_None_iff)

lemma find_distinct:
  "distinct (map f xs) \<Longrightarrow> x \<in> set xs \<Longrightarrow> find (\<lambda>y. f y = f x) xs = Some x"
  by (induction xs) auto

lemma slot_known:
  "distinct (map ieeeAddr devs) \<Longrightarrow> dev \<in> set devs \<Longrightarrow>
   slot devs dump (ieeeAddr dev) = Some (omit (dump dev) [''id'', ''endpoints''])"
  by (simp add: slot_def find_distinct)

lemma omit_keys: "fst ` set (omit obj props) = fst ` set obj - set props"
  by (auto simp: omit_def image_iff)

text \<open>
  Claim C8. Without an argument \<open>list\<close> returns one slot per exported device that is
  not \<open>incomplete\<close> (or per device, with \<open>showIncomplete\<close>), each the slot of that
  device's address; with one device per address it is that device's dump without \<open>id\<close>
  and \<open>endpoints\<close>. With a string it returns the one slot of that address, with an
  array of strings one slot per element, in order. The slot of an unknown address is
  the undefined slot; the slot of a known address is the dump of the device found,
  whose keys are the dump's keys without \<open>id\<close> and \<open>endpoints\<close>.
\<close>

theorem list_returns_dumps:
  "list_devs devs dump (Val JUndefined) showIncomplete
     = Inr (map (\<lambda>dev. slot devs dump (ieeeAddr dev))
              (filter (\<lambda>a. showIncomplete \<or> \<not> incomplete a) devs))
   \<and> (distinct (map ieeeAddr devs) \<longrightarrow>
        list_devs devs dump (Val JUndefined) showIncomplete
          = Inr (map (\<lambda>dev. Some (omit (dump dev) [''id'', ''endpoints'']))
                   (filter (\<lambda>a. showIncomplete \<or> \<not> incomplete a) devs)))
   \<and> list_devs devs dump (Val (JStr a)) showIncomplete = Inr [slot devs dump a]
   \<and> list_devs devs dump (Arr (map JStr as)) showIncomplete = Inr (map (slot devs dump) as)
   \<and> (a \<notin> ieeeAddr ` set devs \<longrightarrow> slot devs dump a = None)
   \<and> (\<forall>dev. find (\<lambda>d. ieeeAddr d = a) devs = Some dev \<longrightarrow>
         slot devs dump a = Some (omit (dump dev) [''id'', ''endpoints''])
         \<and> fst ` set (omit (dump dev) [''id'', ''endpoints''])
             = fst ` set (dump dev) - {''id'', ''endpoints''})"
proof -
  have u: "list_devs devs dump (Val JUndefined) showIncomplete
     = Inr (map (\<lambda>dev. slot devs dump (ieeeAddr dev))
              (filter (\<lambda>a. showIncomplete \<or> \<not> incomplete a) devs))"
    using foundDevs_strings [of devs dump "map ieeeAddr (filter (\<lambda>a. showIncomplete \<or> \<not> incomplete a) devs)"]
    by (simp add: list_devs_def comp_def)
  have d: "list_devs devs dump (Val JUndefined) showIncomplete
          = Inr (map (\<lambda>dev. Some (omit (dump dev) [''id'', ''endpoints'']))
                   (filter (\<lambda>a. showIncomplete \<or> \<not> incomplete a) devs))"
    if "distinct (map ieeeAddr devs)"
    unfolding u using slot_known [OF that, of _ dump] by simp
  have s: "list_devs devs dump (Val (JStr a)) showIncomplete = Inr [slot devs dump a]"
    using foundDevs_strings [of devs dump "[a]"] by (simp add: list_devs_def)
  have r: "list_devs devs dump (Arr (map JStr as)) showIncomplete = Inr (map (slot devs dump) as)"
    by (simp add: list_devs_def foundDevs_strings)
  have k: "fst ` set (omit (dump dev) [''id'', ''endpoints''])
             = fst ` set (dump dev) - {''id'', ''endpoints''}" for dev
    using omit_keys [of "dump dev" "[''id'', ''endpoints'']"] by simp
  show ?thesis
    using u d s r k slot_None [of devs dump a] by (simp add: slot_def)
qed


theorem list_returns_dumps_witness:
  "distinct (map ieeeAddr [dev1, dev2])
   \<and> list_devs [dev1, dev2] dump0 (Val JUndefined) False
       = Inr [Some [(''ieeeAddr'', JStr ''0x00124b0001''), (''nwkAddr'', JNum 100)]]
   \<and> list_devs [dev1, dev2] dump0 (Arr [JStr ''0x00124b0009'']) False = Inr [None]
   \<and> list_devs [dev1, dev2] dump0 (Val (JStr ''0x00124b0002'')) False
       = Inr [Some [(''ieeeAddr'', JStr ''0x00124b0002''), (''nwkAddr'', JNum 200)]]"
proof -
  have d: "distinct (map ieeeAddr [dev1, dev2])" by (simp add: dev1_def dev2_def)
  note t1 = list_returns_dumps [where devs = "[dev1, dev2]" and dump = dump0
      and showIncomplete = False and a = "''0x00124b0002''" and as = "[]"]
  note t2 = list_returns_dumps [where devs = "[dev1, dev2]" and dump = dump0
      and showIncomplete = False and a = "''0x00124b0009''" and as = "[''0x00124b0009'']"]
  have a: "list_devs [dev1, dev2] dump0 (Val JUndefined) False
       = Inr [Some [(''ieeeAddr'', JStr ''0x00124b0001''), (''nwkAddr'', JNum 100)]]"
    using t1 [THEN conjunct1] by (simp add: slot_def dev1_def dev2_def dump0_def omit_def)
  have b: "list_devs [dev1, dev2] dump0 (Arr [JStr ''0x00124b0009'']) False = Inr [None]"
    using t2 [THEN conjunct2, THEN conjunct2, THEN conjunct2, THEN conjunct1]
    by (simp add: slot_def dev1_def dev2_def)
  have c: "list_devs [dev1, dev2] dump0 (Val (JStr ''0x00124b0002'')) False
       = Inr [Some [(''ieeeAddr'', JStr ''0x00124b0002''), (''nwkAddr'', JNum 200)]]"
    using t1 [THEN conjunct2, THEN conjunct2, THEN conjunct1]
    by (simp add: slot_def dev1_def dev2_def dump0_def omit_def)
  show ?thesis using d a b c by simp
qed

section \<open>The Topology Scanner: what a scan returns\<close>

subsection \<open>One response\<close>




subsection \<open>The whole scan\<close>





lemma runTask_data:
  assumes "processEntries devs emit a data (noDuplicate sc, [], sink sc) = (nd', st', snk')"
  shows "runTask devs request emit sc (a, Inr (Some data)) =
         sc\<lparr>noDuplicate := nd', sink := snk',
            pending := pending sc @ map (\<lambda>a. (a, lqi devs request a)) st'\<rparr>"
  using assms by (simp add: runTask_def)








subsection \<open>The scan returns\<close>

lemma isRouter_known: "isRouter devs a \<Longrightarrow> a \<in> ieeeAddr ` set devs"
  by (auto simp: isRouter_def find_Some_iff split: option.splits)

lemma processEntries_todo:
  assumes "processEntries devs emit p es (nd, st, snk) = (nd', st', snk')"
  shows "length st' + card (ieeeAddr ` set devs - fst ` set nd')
           \<le> length st + card (ieeeAddr ` set devs - fst ` set nd)"
  using assms
proof (induction es arbitrary: nd st snk)
  case Nil
  then show ?case by simp
next
  case (Cons e es)
  let ?D = "ieeeAddr ` set devs"
  show ?case
  proof (cases "l_ieeeAddr e = zeroAddr")
    case True
    then have "processEntries devs emit p es (nd, st, snk) = (nd', st', snk')"
      using Cons.prems by simp
    then show ?thesis by (rule Cons.IH)
  next
    case nz: False
    let ?e = "stamp devs p e"
    let ?snk = "if emit then snk @ [?e] else snk"
    show ?thesis
    proof (cases "map_of nd (l_ieeeAddr e)")
      case None
      let ?nd = "AList.update (l_ieeeAddr e) ?e nd"
      let ?st = "if isRouter devs (l_ieeeAddr e) then st @ [l_ieeeAddr e] else st"
      have r: "processEntries devs emit p es (?nd, ?st, ?snk) = (nd', st', snk')"
        using Cons.prems nz None by (simp add: Let_def split del: if_split)
      note ih = Cons.IH [OF r]
      have k: "fst ` set ?nd = insert (l_ieeeAddr e) (fst ` set nd)"
        by (simp add: dom_update)
      have nk: "l_ieeeAddr e \<notin> fst ` set nd"
        using None by (simp add: map_of_eq_None_iff)
      have "length ?st + card (?D - fst ` set ?nd) \<le> length st + card (?D - fst ` set nd)"
      proof (cases "isRouter devs (l_ieeeAddr e)")
        case True
        then have "l_ieeeAddr e \<in> ?D - fst ` set nd" using isRouter_known nk by blast
        moreover have "?D - fst ` set ?nd = (?D - fst ` set nd) - {l_ieeeAddr e}"
          unfolding k by blast
        moreover have "finite (?D - fst ` set nd)" by simp
        ultimately have "card (?D - fst ` set ?nd) = card (?D - fst ` set nd) - 1"
            and "card (?D - fst ` set nd) \<ge> 1"
          by (simp_all add: card_Diff_singleton card_gt_0_iff Suc_le_eq) blast
        then show ?thesis using True by simp
      next
        case False
        have "?D - fst ` set ?nd \<subseteq> ?D - fst ` set nd" unfolding k by blast
        then have "card (?D - fst ` set ?nd) \<le> card (?D - fst ` set nd)"
          by (intro card_mono) simp_all
        then show ?thesis using False by simp
      qed
      then show ?thesis using ih by linarith
    next
      case (Some y)
      then have "processEntries devs emit p es (nd, st, ?snk) = (nd', st', snk')"
        using Cons.prems nz by (simp add: Let_def split del: if_split)
      then show ?thesis by (rule Cons.IH)
    qed
  qed
qed

lemma runTask_todo: "todo devs (runTask devs request emit sc t) \<le> todo devs sc"
proof (cases "snd t")
  case (Inl err)
  show ?thesis
  proof (cases "map_of (noDuplicate sc) (fst t)")
    case None
    then show ?thesis using Inl by (simp add: runTask_def)
  next
    case (Some r)
    then have "fst t \<in> fst ` set (noDuplicate sc)"
      by (metis map_of_eq_None_iff option.distinct(1))
    then have "fst ` set (AList.update (fst t) (r\<lparr>l_error := Some err\<rparr>) (noDuplicate sc))
               = fst ` set (noDuplicate sc)"
      by (auto simp: dom_update)
    then show ?thesis using Inl Some by (simp add: runTask_def todo_def)
  qed
next
  case (Inr d)
  show ?thesis
  proof (cases d)
    case None
    then show ?thesis using Inr by (simp add: runTask_def todo_def)
  next
    case (Some data)
    obtain nd' st' snk' where pe:
      "processEntries devs emit (fst t) data (noDuplicate sc, [], sink sc) = (nd', st', snk')"
      by (cases "processEntries devs emit (fst t) data (noDuplicate sc, [], sink sc)")
    have tt: "t = (fst t, Inr (Some data))" using Inr Some by (cases t) simp
    have rt: "runTask devs request emit sc t =
         sc\<lparr>noDuplicate := nd', sink := snk',
            pending := pending sc @ map (\<lambda>a. (a, lqi devs request a)) st'\<rparr>"
      using runTask_data [OF pe, of request] tt by simp
    show ?thesis
      unfolding rt todo_def using processEntries_todo [OF pe] by simp
  qed
qed

lemma runScan_idle:
  "pending sc = [] \<Longrightarrow> runScan devs request emit (replicate n 0) sc = sc"
  by (induction n) simp_all

lemma runScan_drains:
  "todo devs sc \<le> n \<Longrightarrow> pending (runScan devs request emit (replicate n 0) sc) = []"
proof (induction n arbitrary: sc)
  case 0
  then show ?case by (simp add: todo_def)
next
  case (Suc n)
  show ?case
  proof (cases "pending sc")
    case Nil
    then show ?thesis using runScan_idle [of sc devs request emit "Suc n"] by simp
  next
    case (Cons t ts)
    let ?sc = "sc\<lparr>pending := ts\<rparr>"
    have "todo devs ?sc = todo devs sc - 1" and "todo devs sc \<ge> 1"
      using Cons by (simp_all add: todo_def)
    then have "todo devs (runTask devs request emit ?sc t) \<le> n"
      using runTask_todo [of devs request emit ?sc t] Suc.prems by linarith
    then have "pending (runScan devs request emit (replicate n 0) (runTask devs request emit ?sc t)) = []"
      by (rule Suc.IH)
    then show ?thesis using Cons by simp
  qed
qed

text \<open>Worked off in the order the requests were sent, every scan settles: each step
  takes a pending request away, and a new one is only sent for an address of the
  registry that was not in \<open>noDuplicate\<close> before.\<close>

lemma lqiScan_returns:
  "\<exists>n. lqiScan devs request netIeee (replicate n 0) startAddr emit \<noteq> None"
proof (cases "lqi devs request (startOf netIeee startAddr)")
  case (Inl err)
  then show ?thesis by (simp add: lqiScan_def)
next
  case (Inr d)
  show ?thesis
  proof (cases d)
    case None
    then show ?thesis using Inr by (simp add: lqiScan_def)
  next
    case (Some data)
    let ?fl = "firstLevel devs request emit (startOf netIeee startAddr) data"
    have "pending (runScan devs request emit (replicate (todo devs ?fl) 0) ?fl) = []"
      by (rule runScan_drains) simp
    then have "lqiScan devs request netIeee (replicate (todo devs ?fl) 0) startAddr emit \<noteq> None"
      using Inr Some by (simp add: lqiScan_def Let_def split: option.splits)
    then show ?thesis by blast
  qed
qed


subsection \<open>The returned list\<close>






end
